theory Spec2Isabelle
  imports Main "HOL-Library.Sublist" "HOL-Library.AList" "HOL-Library.Word"
begin

unbundle bit_operations_syntax

section \<open>The stack generator \<^verbatim>\<open>setup_stack.py\<close>\<close>

text \<open>
  The generator writes a fixed set of template files below a stack root, marks the shell
  scripts executable, creates an empty \<^verbatim>\<open>logs\<close> directory, packs the tree into a ZIP archive
  and records every action in two log files next to the script. The model follows the
  source function by function. Everything the script does to the outside world is a
  transition on an explicit \<open>world\<close> (the file system, the two console streams and the
  number of clock readings so far); what it reads from its surroundings without being able
  to change it (the script's directory, the clock, the refusals of the operating system,
  the umask, the interpreter's traceback text, the ZIP encoder) is an \<open>env\<close>. An exception
  is the left summand of a result, so every \<^verbatim>\<open>raise\<close> of the source is a branch of the model.
\<close>

subsection \<open>Text: \<^verbatim>\<open>textwrap.dedent\<close> and \<^verbatim>\<open>str.lstrip\<close>\<close>

text \<open>
  A Python string is modelled by its UTF-8 bytes, which is also what \<^verbatim>\<open>write_text\<close> stores.
  The three characters that \<^verbatim>\<open>dedent\<close> and \<^verbatim>\<open>lstrip("\n")\<close> look at (space, tab, newline) are
  single bytes that occur nowhere inside a multi-byte sequence, so both functions act on the
  bytes as they act on the code points.

  \<^verbatim>\<open>textwrap.dedent\<close> is the standard library's function (the regular-expression version of
  CPython 3.0 to 3.13). Its regular expressions are all anchored at line starts in
  \<^verbatim>\<open>MULTILINE\<close> mode, where \<^verbatim>\<open>^\<close> matches at the start of the text and after every newline
  and \<^verbatim>\<open>$\<close> at its end and before every newline; they are therefore modelled on the
  lines of \<^verbatim>\<open>text.split("\n")\<close>.
\<close>

definition is_ws :: "char \<Rightarrow> bool" where
  \<comment> \<open>the character class \<^verbatim>\<open>[ \t]\<close>\<close>
  "is_ws c \<longleftrightarrow> c = CHR '' '' \<or> c = CHR 0x09"

definition blank :: "string \<Rightarrow> bool" where
  \<comment> \<open>a line of spaces and tabs only (the empty line included)\<close>
  "blank l \<longleftrightarrow> list_all is_ws l"

fun split_nl :: "string \<Rightarrow> string list" where
  \<comment> \<open>\<^verbatim>\<open>text.split("\n")\<close>\<close>
  "split_nl [] = [[]]"
| "split_nl (c # cs) =
     (if c = CHR 0x0A then [] # split_nl cs
      else (case split_nl cs of [] \<Rightarrow> [[c]] | l # ls \<Rightarrow> (c # l) # ls))"

fun join_nl :: "string list \<Rightarrow> string" where
  \<comment> \<open>\<^verbatim>\<open>"\n".join(lines)\<close>\<close>
  "join_nl [] = []"
| "join_nl [l] = l"
| "join_nl (l # ls) = l @ CHR 0x0A # join_nl ls"

definition whitespace_only_sub :: "string \<Rightarrow> string" where
  \<comment> \<open>\<^verbatim>\<open>_whitespace_only_re.sub('', text)\<close> with the pattern \<^verbatim>\<open>^[ \t]+$\<close>\<close>
  "whitespace_only_sub text =
     join_nl (map (\<lambda>l. if blank l then [] else l) (split_nl text))"

definition leading_whitespace_findall :: "string \<Rightarrow> string list" where
  \<comment> \<open>\<^verbatim>\<open>_leading_whitespace_re.findall(text)\<close> with the pattern \<^verbatim>\<open>(^[ \t]*)(?:[^ \t\n])\<close>:
      the indentation of every line that has a character other than space and tab\<close>
  "leading_whitespace_findall text =
     map (takeWhile is_ws) (filter (\<lambda>l. \<not> blank l) (split_nl text))"

fun first_mismatch :: "string \<Rightarrow> string \<Rightarrow> nat \<Rightarrow> nat option" where
  \<comment> \<open>the index at which \<^verbatim>\<open>for i, (x, y) in enumerate(zip(margin, indent))\<close> finds \<^verbatim>\<open>x != y\<close>\<close>
  "first_mismatch (x # xs) (y # ys) i =
     (if x \<noteq> y then Some i else first_mismatch xs ys (Suc i))"
| "first_mismatch _ _ i = None"

fun margin_step :: "string option \<Rightarrow> string \<Rightarrow> string option" where
  \<comment> \<open>one round of the loop \<^verbatim>\<open>for indent in indents\<close>; \<open>None\<close> is Python's \<^verbatim>\<open>None\<close>\<close>
  "margin_step None indent = Some indent"
| "margin_step (Some margin) indent =
     (if prefix margin indent then Some margin
      else if prefix indent margin then Some indent
      else (case first_mismatch margin indent 0 of
              Some i \<Rightarrow> Some (take i margin)
            | None \<Rightarrow> Some margin))"

definition strip_margin :: "string \<Rightarrow> string \<Rightarrow> string" where
  \<comment> \<open>what \<^verbatim>\<open>re.sub(r'(?m)^' + margin, '', text)\<close> does to one line\<close>
  "strip_margin m l = (if prefix m l then drop (length m) l else l)"

definition sub_margin :: "string \<Rightarrow> string \<Rightarrow> string" where
  "sub_margin margin text = join_nl (map (strip_margin margin) (split_nl text))"

definition dedent :: "string \<Rightarrow> string" where
  "dedent text =
     (let text1 = whitespace_only_sub text;
          indents = leading_whitespace_findall text1
      in case foldl margin_step None indents of
           None \<Rightarrow> text1
         | Some margin \<Rightarrow> if margin \<noteq> [] then sub_margin margin text1 else text1)"

definition lstrip_nl :: "string \<Rightarrow> string" where
  \<comment> \<open>\<^verbatim>\<open>s.lstrip("\n")\<close>\<close>
  "lstrip_nl s = dropWhile (\<lambda>c. c = CHR 0x0A) s"

text \<open>Notions used to reason about \<open>dedent\<close> line by line.\<close>

definition margin_of :: "string list \<Rightarrow> string" where
  \<comment> \<open>the margin the loop ends with, the empty string standing for \<^verbatim>\<open>None\<close> as well\<close>
  "margin_of is = (case foldl margin_step None is of None \<Rightarrow> [] | Some m \<Rightarrow> m)"

definition indents :: "string list \<Rightarrow> string list" where
  "indents ls = map (takeWhile is_ws) (filter (\<lambda>l. \<not> blank l) ls)"

definition blank_out :: "string list \<Rightarrow> string list" where
  "blank_out ls = map (\<lambda>l. if blank l then [] else l) ls"

definition tidy :: "string list \<Rightarrow> bool" where
  \<comment> \<open>lines of a text in which every blank line is empty\<close>
  "tidy ls \<longleftrightarrow> ls \<noteq> [] \<and> (\<forall>l \<in> set ls. CHR 0x0A \<notin> set l \<and> (blank l \<longrightarrow> l = []))"

text \<open>
  The file writer's contract in the words of the specification: find the longest
  whitespace prefix common to all non-blank lines, strip it from each line, then strip the
  leading blank lines.
\<close>

definition spec_common_prefix :: "string list \<Rightarrow> string" where
  \<comment> \<open>the longest prefix of the first non-blank line's indentation that every non-blank
      line starts with (the prefixes are listed by growing length)\<close>
  "spec_common_prefix ls =
     (case filter (\<lambda>l. \<not> blank l) ls of
        [] \<Rightarrow> []
      | l # rest \<Rightarrow> last (filter (\<lambda>p. list_all (prefix p) rest) (prefixes (takeWhile is_ws l))))"

definition spec_write_text :: "string \<Rightarrow> string" where
  "spec_write_text content =
     (let ls = split_nl content;
          m = spec_common_prefix ls
      in join_nl (dropWhile blank (map (strip_margin m) ls)))"

subsection \<open>The world the script runs in\<close>

type_synonym path = "string list"
  \<comment> \<open>an absolute \<^verbatim>\<open>pathlib.Path\<close>: its components below the root\<close>

datatype exc = Exc (exc_str: string)
  \<comment> \<open>an exception, with the text \<^verbatim>\<open>str(exc)\<close> that the log messages interpolate\<close>

datatype node =
    File (st_mode: "32 word") (data: string)
  | Dir (st_mode: "32 word")

datatype opkind = OpMkdir | OpWrite | OpAppend | OpStat | OpChmod | OpRead | OpList

record datetime =
  year :: nat
  month :: nat
  day :: nat
  hour :: nat
  minute :: nat
  second :: nat

record env =
  root_dir :: path
    \<comment> \<open>\<^verbatim>\<open>ROOT_DIR = Path(__file__).resolve().parent\<close>\<close>
  clock :: "nat \<Rightarrow> datetime"
    \<comment> \<open>what the \<open>n\<close>-th call of \<^verbatim>\<open>datetime.datetime.now(datetime.timezone.utc)\<close> returns\<close>
  fault :: "opkind \<Rightarrow> path \<Rightarrow> exc option"
    \<comment> \<open>the operating system's refusals (permissions, full disk, ...): the exception an
        operation on a path raises, if any\<close>
  umask :: "32 word"
  format_exc :: "exc \<Rightarrow> string"
    \<comment> \<open>\<^verbatim>\<open>traceback.format_exc()\<close> while the exception is being handled\<close>
  sgid_kept :: "path \<Rightarrow> bool"
    \<comment> \<open>whether \<^verbatim>\<open>chmod(2)\<close> leaves the set-group-ID bit of the node at a path alone: it does
        for a privileged caller and for a member of the node's group, and clears the bit
        for everybody else\<close>
  walk_rank :: "path \<Rightarrow> nat"
    \<comment> \<open>the order of directory listings, which is the operating system's: \<^verbatim>\<open>os.walk\<close>
        reports a file of smaller rank first\<close>
  zip_bytes :: "nat \<Rightarrow> (path \<times> string) list \<Rightarrow> string"
    \<comment> \<open>the bytes \<^verbatim>\<open>zipfile\<close> writes for a list of (entry name, file data) at a given
        moment of the run. An archive also records the mode and the modification time of
        every member, which the world below does not keep: they belong to the moment, so
        that the same entries need not give the same bytes at another moment.\<close>

record world =
  fs :: "(path \<times> node) list"
    \<comment> \<open>the file system: the node at each path that exists\<close>
  stdout :: string
  stderr :: string
  ticks :: nat
    \<comment> \<open>how often the clock has been read\<close>

type_synonym 'a io = "world \<Rightarrow> (exc + 'a) \<times> world"

definition io_return :: "'a \<Rightarrow> 'a io" where
  "io_return x w = (Inr x, w)"

definition io_raise :: "exc \<Rightarrow> 'a io" where
  "io_raise e w = (Inl e, w)"

definition io_bind :: "'a io \<Rightarrow> ('a \<Rightarrow> 'b io) \<Rightarrow> 'b io" where
  \<comment> \<open>one statement after another: an exception skips what follows\<close>
  "io_bind m f w = (case m w of (Inl e, w') \<Rightarrow> (Inl e, w') | (Inr x, w') \<Rightarrow> f x w')"

definition io_then :: "'a io \<Rightarrow> 'b io \<Rightarrow> 'b io" where
  "io_then m n = io_bind m (\<lambda>_. n)"

definition io_try :: "'a io \<Rightarrow> (exc \<Rightarrow> 'a io) \<Rightarrow> 'a io" where
  \<comment> \<open>\<^verbatim>\<open>try: m except Exception as exc: h\<close>\<close>
  "io_try m h w = (case m w of (Inl e, w') \<Rightarrow> h e w' | (Inr x, w') \<Rightarrow> (Inr x, w'))"

fun io_seq :: "unit io list \<Rightarrow> unit io" where
  \<comment> \<open>a run of statements, or the rounds of a \<^verbatim>\<open>for\<close> loop\<close>
  "io_seq [] = io_return ()"
| "io_seq (m # ms) = io_then m (io_seq ms)"

subsection \<open>Paths and files\<close>

definition parent :: "path \<Rightarrow> path" where
  "parent p = butlast p"

definition path_name :: "path \<Rightarrow> string" where
  \<comment> \<open>\<^verbatim>\<open>path.name\<close>, empty for the root\<close>
  "path_name p = (if p = [] then [] else last p)"

definition str_path :: "path \<Rightarrow> string" where
  \<comment> \<open>\<^verbatim>\<open>str(path)\<close> on POSIX\<close>
  "str_path p = (if p = [] then ''/'' else concat (map (\<lambda>c. ''/'' @ c) p))"

definition os_error :: "string \<Rightarrow> path \<Rightarrow> exc" where
  \<comment> \<open>an \<^verbatim>\<open>OSError\<close> of the standard library: \<^verbatim>\<open>str(exc)\<close> is the message \<^verbatim>\<open>[Errno n] ...\<close>,
      a colon and the path in quotes (for a path of printable characters without quote or
      backslash, which \<^verbatim>\<open>repr\<close> leaves as they are)\<close>
  "os_error s p = Exc (s @ '': '' @ [CHR 0x27] @ str_path p @ [CHR 0x27])"

definition node_at :: "world \<Rightarrow> path \<Rightarrow> node option" where
  "node_at w p = map_of (fs w) p"

definition is_file :: "world \<Rightarrow> path \<Rightarrow> bool" where
  "is_file w p = (case node_at w p of Some (File m d) \<Rightarrow> True | _ \<Rightarrow> False)"

definition is_dir :: "world \<Rightarrow> path \<Rightarrow> bool" where
  \<comment> \<open>the root always exists\<close>
  "is_dir w p = (p = [] \<or> (case node_at w p of Some (Dir m) \<Rightarrow> True | _ \<Rightarrow> False))"

definition content_at :: "world \<Rightarrow> path \<Rightarrow> string option" where
  "content_at w p = (case node_at w p of Some (File m d) \<Rightarrow> Some d | _ \<Rightarrow> None)"

definition text_of :: "world \<Rightarrow> path \<Rightarrow> string" where
  \<comment> \<open>what a file holds, nothing if there is no such file\<close>
  "text_of w p = (case content_at w p of Some d \<Rightarrow> d | None \<Rightarrow> [])"

definition set_node :: "path \<Rightarrow> node \<Rightarrow> world \<Rightarrow> world" where
  "set_node p n w = w\<lparr>fs := AList.update p n (fs w)\<rparr>"

definition paths :: "world \<Rightarrow> path list" where
  "paths w = remdups (map fst (fs w))"

definition S_IFREG :: "32 word" where "S_IFREG = 0x8000"
definition S_IFDIR :: "32 word" where "S_IFDIR = 0x4000"
definition S_ISGID :: "32 word" where "S_ISGID = 0x400"
definition S_IXUSR :: "32 word" where "S_IXUSR = 0x40"
definition S_IXGRP :: "32 word" where "S_IXGRP = 0x08"
definition S_IXOTH :: "32 word" where "S_IXOTH = 0x01"

definition perm_bits :: "32 word" where
  \<comment> \<open>the bits \<^verbatim>\<open>chmod(2)\<close> sets: \<^verbatim>\<open>07777\<close>\<close>
  "perm_bits = 0xFFF"

definition new_file_mode :: "env \<Rightarrow> 32 word" where
  \<comment> \<open>\<^verbatim>\<open>open\<close> creates a file with \<^verbatim>\<open>0666 & ~umask\<close>\<close>
  "new_file_mode E = S_IFREG OR (0x1B6 AND NOT (umask E))"

definition new_dir_mode :: "env \<Rightarrow> 32 word" where
  \<comment> \<open>\<^verbatim>\<open>mkdir\<close> creates a directory with \<^verbatim>\<open>0777 & ~umask\<close>\<close>
  "new_dir_mode E = S_IFDIR OR (0x1FF AND NOT (umask E))"

definition missing :: "world \<Rightarrow> path \<Rightarrow> exc" where
  \<comment> \<open>the error of a system call on a path that leads nowhere: \<^verbatim>\<open>ENOTDIR\<close> where a file
      stands in the way, \<^verbatim>\<open>ENOENT\<close> otherwise\<close>
  "missing w p =
     (if list_ex (is_file w) (butlast (prefixes p))
      then os_error ''[Errno 20] Not a directory'' p
      else os_error ''[Errno 2] No such file or directory'' p)"

definition mkdir_p :: "env \<Rightarrow> path \<Rightarrow> unit io" where
  \<comment> \<open>\<^verbatim>\<open>path.mkdir(parents=True, exist_ok=True)\<close>: the first \<^verbatim>\<open>os.mkdir(path)\<close> fails with
      \<^verbatim>\<open>ENOTDIR\<close> where a file stands above the path, and with \<^verbatim>\<open>EEXIST\<close>, which is raised
      again, where the path is a file; otherwise the directories that are missing are
      created, the upper ones first\<close>
  "mkdir_p E p w =
     (case fault E OpMkdir p of
        Some e \<Rightarrow> (Inl e, w)
      | None \<Rightarrow>
          if list_ex (is_file w) (butlast (prefixes p))
          then (Inl (os_error ''[Errno 20] Not a directory'' p), w)
          else if is_file w p
          then (Inl (os_error ''[Errno 17] File exists'' p), w)
          else (Inr (), foldl (\<lambda>v q. if node_at v q = None \<and> q \<noteq> []
                                      then set_node q (Dir (new_dir_mode E)) v else v)
                          w (prefixes p)))"

definition open_file :: "env \<Rightarrow> opkind \<Rightarrow> path \<Rightarrow> (string \<Rightarrow> string) \<Rightarrow> unit io" where
  \<comment> \<open>\<^verbatim>\<open>open(path, mode)\<close> followed by one \<^verbatim>\<open>write\<close>: \<open>f\<close> maps what the file held to
      what it holds afterwards. An existing file keeps its mode.\<close>
  "open_file E k p f w =
     (case fault E k p of
        Some e \<Rightarrow> (Inl e, w)
      | None \<Rightarrow>
          if p = []
          then (Inl (os_error ''[Errno 21] Is a directory'' p), w)
          else if \<not> is_dir w (parent p)
          then (Inl (missing w p), w)
          else (case node_at w p of
                  Some (Dir m) \<Rightarrow> (Inl (os_error ''[Errno 21] Is a directory'' p), w)
                | Some (File m d) \<Rightarrow> (Inr (), set_node p (File m (f d)) w)
                | None \<Rightarrow> (Inr (), set_node p (File (new_file_mode E) (f [])) w)))"

definition write_text :: "env \<Rightarrow> path \<Rightarrow> string \<Rightarrow> unit io" where
  \<comment> \<open>\<^verbatim>\<open>path.write_text(text, encoding="utf-8")\<close>\<close>
  "write_text E p t = open_file E OpWrite p (\<lambda>_. t)"

definition append_text :: "env \<Rightarrow> path \<Rightarrow> string \<Rightarrow> unit io" where
  \<comment> \<open>\<^verbatim>\<open>with path.open("a", encoding="utf-8") as f: f.write(line)\<close>\<close>
  "append_text E p t = open_file E OpAppend p (\<lambda>d. d @ t)"

definition stat_mode :: "env \<Rightarrow> path \<Rightarrow> (32 word) io" where
  \<comment> \<open>\<^verbatim>\<open>path.stat().st_mode\<close>\<close>
  "stat_mode E p w =
     (case fault E OpStat p of
        Some e \<Rightarrow> (Inl e, w)
      | None \<Rightarrow>
          (case node_at w p of
             None \<Rightarrow> (Inl (missing w p), w)
           | Some n \<Rightarrow> (Inr (st_mode n), w)))"

definition with_perm :: "32 word \<Rightarrow> node \<Rightarrow> node" where
  \<comment> \<open>\<^verbatim>\<open>chmod(2)\<close> replaces the permission bits and keeps the file type\<close>
  "with_perm m n =
     (case n of
        File t d \<Rightarrow> File ((t AND NOT perm_bits) OR (m AND perm_bits)) d
      | Dir t \<Rightarrow> Dir ((t AND NOT perm_bits) OR (m AND perm_bits)))"

definition granted :: "env \<Rightarrow> path \<Rightarrow> 32 word \<Rightarrow> 32 word" where
  \<comment> \<open>the mode that \<^verbatim>\<open>chmod(2)\<close> sets when \<open>m\<close> is asked for: the set-group-ID bit is dropped
      for a caller who is neither privileged nor a member of the node's group\<close>
  "granted E p m = (if sgid_kept E p then m else m AND NOT S_ISGID)"

definition chmod :: "env \<Rightarrow> path \<Rightarrow> 32 word \<Rightarrow> unit io" where
  \<comment> \<open>\<^verbatim>\<open>path.chmod(mode)\<close>\<close>
  "chmod E p m w =
     (case fault E OpChmod p of
        Some e \<Rightarrow> (Inl e, w)
      | None \<Rightarrow>
          (case node_at w p of
             None \<Rightarrow> (Inl (missing w p), w)
           | Some n \<Rightarrow> (Inr (), set_node p (with_perm (granted E p m) n) w)))"

definition path_exists :: "env \<Rightarrow> path \<Rightarrow> bool io" where
  \<comment> \<open>\<^verbatim>\<open>path.exists()\<close>: a refusal other than "no such file" is raised\<close>
  "path_exists E p w =
     (case fault E OpStat p of
        Some e \<Rightarrow> (Inl e, w)
      | None \<Rightarrow> (Inr (p = [] \<or> node_at w p \<noteq> None), w))"

definition listable :: "env \<Rightarrow> world \<Rightarrow> path \<Rightarrow> bool" where
  \<comment> \<open>\<^verbatim>\<open>os.scandir\<close> succeeds: the path is a directory and the system lets it be read\<close>
  "listable E w d \<longleftrightarrow> is_dir w d \<and> fault E OpList d = None"

definition reached :: "env \<Rightarrow> world \<Rightarrow> path \<Rightarrow> path \<Rightarrow> bool" where
  \<comment> \<open>every directory from \<open>root\<close> down to the one that holds \<open>p\<close> can be listed\<close>
  "reached E w root p \<longleftrightarrow>
     list_all (\<lambda>d. prefix root d \<longrightarrow> listable E w d) (butlast (prefixes p))"

definition walk_files :: "env \<Rightarrow> world \<Rightarrow> path \<Rightarrow> path list" where
  \<comment> \<open>the files \<^verbatim>\<open>os.walk(root)\<close> reports, each as \<^verbatim>\<open>Path(folder) / name\<close>. The walk goes
      down from \<open>root\<close> through the directories it can list; as no \<^verbatim>\<open>onerror\<close> is given, a
      directory that cannot be listed is passed over in silence, with all that is below
      it. So a file is reported if every directory from \<open>root\<close> down to the file's own can
      be listed. The order is that of the listings.\<close>
  "walk_files E w root =
     sort_key (walk_rank E)
       (filter (\<lambda>p. strict_prefix root p \<and> is_file w p \<and> reached E w root p) (paths w))"

definition glob_sh :: "env \<Rightarrow> path \<Rightarrow> path list io" where
  \<comment> \<open>\<^verbatim>\<open>list(scripts_dir.glob("*.sh"))\<close>: the entries of the directory whose name ends in
      \<^verbatim>\<open>.sh\<close>, files and directories alike, in the order of the listing; nothing, and no
      exception, if the path is no directory or may not be listed\<close>
  "glob_sh E d w =
     (Inr (if listable E w d
           then sort_key (walk_rank E)
                  (filter (\<lambda>p. p \<noteq> [] \<and> parent p = d \<and> suffix ''.sh'' (path_name p)) (paths w))
           else []), w)"

definition read_bytes :: "env \<Rightarrow> path \<Rightarrow> string io" where
  "read_bytes E p w =
     (case fault E OpRead p of
        Some e \<Rightarrow> (Inl e, w)
      | None \<Rightarrow>
          (case node_at w p of
             Some (File m d) \<Rightarrow> (Inr d, w)
           | Some (Dir m) \<Rightarrow> (Inl (os_error ''[Errno 21] Is a directory'' p), w)
           | None \<Rightarrow> (Inl (missing w p), w)))"

definition relative_to :: "path \<Rightarrow> path \<Rightarrow> exc + path" where
  \<comment> \<open>\<^verbatim>\<open>full.relative_to(base)\<close>\<close>
  "relative_to full base =
     (if prefix base full then Inr (drop (length base) full)
      else Inl (Exc ([CHR 0x27] @ str_path full @ [CHR 0x27] @ '' is not in the subpath of ''
                     @ [CHR 0x27] @ str_path base @ [CHR 0x27])))"

subsection \<open>The script\<close>

definition VERSION :: string where
  "VERSION = ''0.1.6''"

definition STACK_DIR_NAME :: string where
  "STACK_DIR_NAME = ''modular_cpu_ai_stack_v0_1_6''"

definition ACTIONS_LOG :: "env \<Rightarrow> path" where
  "ACTIONS_LOG E = root_dir E @ [''create_stack_actions.log'']"

definition ERRORS_LOG :: "env \<Rightarrow> path" where
  "ERRORS_LOG E = root_dir E @ [''create_stack_errors.log'']"

definition digit :: "nat \<Rightarrow> char" where
  "digit n = ''0123456789'' ! (n mod 10)"

definition pad2 :: "nat \<Rightarrow> string" where
  \<comment> \<open>two decimal digits, as \<^verbatim>\<open>%m\<close>, \<^verbatim>\<open>%d\<close>, \<^verbatim>\<open>%H\<close>, \<^verbatim>\<open>%M\<close> and \<^verbatim>\<open>%S\<close> print them\<close>
  "pad2 n = [digit (n div 10), digit n]"

definition pad4 :: "nat \<Rightarrow> string" where
  \<comment> \<open>four decimal digits, as \<^verbatim>\<open>%Y\<close> prints a year\<close>
  "pad4 n = [digit (n div 1000), digit (n div 100), digit (n div 10), digit n]"

definition strftime :: "datetime \<Rightarrow> string" where
  \<comment> \<open>\<^verbatim>\<open>dt.strftime("%Y-%m-%dT%H:%M:%SZ")\<close>\<close>
  "strftime d =
     pad4 (year d) @ ''-'' @ pad2 (month d) @ ''-'' @ pad2 (day d) @ ''T''
     @ pad2 (hour d) @ '':'' @ pad2 (minute d) @ '':'' @ pad2 (second d) @ ''Z''"

definition timestamp_utc :: "env \<Rightarrow> string io" where
  "timestamp_utc E w = (Inr (strftime (clock E (ticks w))), w\<lparr>ticks := Suc (ticks w)\<rparr>)"

definition append_log :: "env \<Rightarrow> path \<Rightarrow> string \<Rightarrow> unit io" where
  \<comment> \<open>\<^verbatim>\<open>_append_log\<close>\<close>
  "append_log E path line = io_then (mkdir_p E (parent path)) (append_text E path line)"

definition print_stdout :: "string \<Rightarrow> unit io" where
  "print_stdout s w = (Inr (), w\<lparr>stdout := stdout w @ s\<rparr>)"

definition print_stderr :: "string \<Rightarrow> unit io" where
  "print_stderr s w = (Inr (), w\<lparr>stderr := stderr w @ s\<rparr>)"

definition info_line :: "string \<Rightarrow> string \<Rightarrow> string" where
  "info_line ts message = ts @ '' [INFO] [setup_stack.py]: '' @ message @ [CHR 0x0A]"

definition error_line :: "env \<Rightarrow> string \<Rightarrow> string \<Rightarrow> string" where
  "error_line E ts message =
     ts @ '' [ERROR] [setup_stack.py]: '' @ message @ '' ''
     @ ''(see '' @ str_path (ERRORS_LOG E) @ '' for details)'' @ [CHR 0x0A]"

definition log_info :: "env \<Rightarrow> string \<Rightarrow> unit io" where
  "log_info E message =
     io_bind (timestamp_utc E) (\<lambda>ts.
       io_then (append_log E (ACTIONS_LOG E) (info_line ts message))
               (print_stdout (info_line ts message)))"

definition log_error :: "env \<Rightarrow> string \<Rightarrow> unit io" where
  "log_error E message =
     io_bind (timestamp_utc E) (\<lambda>ts.
       io_then (append_log E (ERRORS_LOG E) (error_line E ts message))
               (print_stderr (error_line E ts message)))"

definition safe_write :: "env \<Rightarrow> path \<Rightarrow> string \<Rightarrow> unit io" where
  "safe_write E path content =
     io_try
       (io_then (mkdir_p E (parent path))
       (io_then (write_text E path (lstrip_nl (dedent content)))
                (log_info E (''Wrote file: '' @ str_path path))))
       (\<lambda>exc. io_then (log_error E (''Failed to write '' @ str_path path @ '': '' @ exc_str exc))
                       (io_raise exc))"

definition make_executable :: "env \<Rightarrow> path \<Rightarrow> unit io" where
  "make_executable E path =
     io_try
       (io_bind (stat_mode E path) (\<lambda>mode.
        io_then (chmod E path (mode OR S_IXUSR OR S_IXGRP OR S_IXOTH))
                (log_info E (''Marked executable: '' @ str_path path))))
       (\<lambda>exc. io_then (log_error E (''Failed to chmod +x '' @ str_path path @ '': '' @ exc_str exc))
                       (io_raise exc))"

definition template_paths :: "path list" where
  \<comment> \<open>the targets of the calls of \<^verbatim>\<open>safe_write\<close> in \<^verbatim>\<open>create_stack_files\<close>, in the order of
      the source, relative to the stack root\<close>
  "template_paths =
     [[''scripts'', ''common.sh''],
      [''scripts'', ''install_llm.sh''],
      [''scripts'', ''install_image_gen.sh''],
      [''scripts'', ''install_tts.sh''],
      [''scripts'', ''download_ollama_models.sh''],
      [''scripts'', ''health_check.sh''],
      [''scripts'', ''clean_stack.sh''],
      [''scripts'', ''setup_oauth.sh''],
      [''install.sh''],
      [''docker-compose.yml''],
      [''README.md''],
      [''CHANGELOG.md''],
      [''session_restart_prompt_v0_1_6.md'']]"

definition create_stack_files :: "env \<Rightarrow> (path \<Rightarrow> string) \<Rightarrow> path \<Rightarrow> unit io" where
  \<comment> \<open>one call of \<^verbatim>\<open>safe_write\<close> after the other; \<open>body rel\<close> is the string literal the
      source passes for the target \<open>rel\<close>\<close>
  "create_stack_files E body stack_root =
     io_seq (map (\<lambda>rel. safe_write E (stack_root @ rel) (body rel)) template_paths)"

fun zip_write_all :: "env \<Rightarrow> path list \<Rightarrow> (path \<times> string) list \<Rightarrow> world
                       \<Rightarrow> (exc + unit) \<times> (path \<times> string) list" where
  \<comment> \<open>the loop over the walked files: \<^verbatim>\<open>rel = full.relative_to(ROOT_DIR)\<close>, then
      \<^verbatim>\<open>zf.write(full, arcname=rel)\<close>; returns the entries written so far\<close>
  "zip_write_all E [] zf w = (Inr (), zf)"
| "zip_write_all E (full # rest) zf w =
     (case relative_to full (root_dir E) of
        Inl e \<Rightarrow> (Inl e, zf)
      | Inr rel \<Rightarrow>
          (case fst (read_bytes E full w) of
             Inl e \<Rightarrow> (Inl e, zf)
           | Inr d \<Rightarrow> zip_write_all E rest (zf @ [(rel, d)]) w))"

definition zip_file :: "env \<Rightarrow> path \<Rightarrow> path \<Rightarrow> unit io" where
  \<comment> \<open>the \<^verbatim>\<open>with zipfile.ZipFile(zip_path, "w", zipfile.ZIP_DEFLATED) as zf\<close> block: the
      archive file is opened (and emptied), the files are walked and added, and leaving the
      block writes the archive of what was added, also when the block is left by an exception\<close>
  "zip_file E zip_path stack_root =
     io_then (write_text E zip_path [])
       (\<lambda>w. case zip_write_all E (walk_files E w stack_root) [] w of
               (r, zf) \<Rightarrow> (r, set_node zip_path
                                 (File (case node_at w zip_path of Some n \<Rightarrow> st_mode n
                                        | None \<Rightarrow> new_file_mode E) (zip_bytes E (ticks w) zf)) w))"

definition zip_path_of :: "env \<Rightarrow> path \<Rightarrow> path" where
  \<comment> \<open>\<^verbatim>\<open>ROOT_DIR / f"{stack_root.name}.zip"\<close>\<close>
  "zip_path_of E stack_root = root_dir E @ [path_name stack_root @ ''.zip'']"

definition create_zip :: "env \<Rightarrow> path \<Rightarrow> path io" where
  "create_zip E stack_root =
     io_try
       (io_then (zip_file E (zip_path_of E stack_root) stack_root)
       (io_then (log_info E (''Created ZIP archive: '' @ str_path (zip_path_of E stack_root)))
                (io_return (zip_path_of E stack_root))))
       (\<lambda>exc. io_then (log_error E (''Failed to create zip '' @ str_path (zip_path_of E stack_root)
                                     @ '': '' @ exc_str exc))
                       (io_raise exc))"

definition stack_root_of :: "env \<Rightarrow> path" where
  \<comment> \<open>\<^verbatim>\<open>stack_root = ROOT_DIR / STACK_DIR_NAME\<close>\<close>
  "stack_root_of E = root_dir E @ [STACK_DIR_NAME]"

definition main_try :: "env \<Rightarrow> (path \<Rightarrow> string) \<Rightarrow> path \<Rightarrow> unit io" where
  \<comment> \<open>the body of the \<^verbatim>\<open>try\<close> statement of \<^verbatim>\<open>main\<close>\<close>
  "main_try E body stack_root =
     io_then (create_stack_files E body stack_root)
    (io_then (io_bind (glob_sh E (stack_root @ [''scripts''])) (\<lambda>shs.
                io_seq (map (make_executable E) shs)))
    (io_then (make_executable E (stack_root @ [''install.sh'']))
    (io_then (mkdir_p E (stack_root @ [''logs'']))
    (io_bind (create_zip E stack_root) (\<lambda>zip_path.
     io_then (log_info E (''Stack files generation complete for '' @ VERSION @ ''.''))
    (io_then (log_info E (''Root directory: '' @ str_path stack_root))
    (io_then (log_info E (''ZIP archive: '' @ str_path zip_path))
             (print_stdout ([CHR 0x0A] @ ''Done.'' @ [CHR 0x0A] @ ''Root: '' @ str_path stack_root
                @ [CHR 0x0A] @ ''ZIP:  '' @ str_path zip_path @ [CHR 0x0A, CHR 0x0A])))))))))"

definition main_except :: "env \<Rightarrow> exc \<Rightarrow> unit io" where
  \<comment> \<open>the \<^verbatim>\<open>except Exception\<close> clause of \<^verbatim>\<open>main\<close>\<close>
  "main_except E exc =
     io_then (log_error E (''Unhandled exception during stack generation:'' @ [CHR 0x0A]
                           @ format_exc E exc))
             (io_raise exc)"

definition main :: "env \<Rightarrow> (path \<Rightarrow> string) \<Rightarrow> unit io" where
  "main E body =
     io_then (log_info E (''Generating stack version '' @ VERSION @ '' in '' @ str_path (root_dir E)))
    (io_then (io_bind (path_exists E (stack_root_of E)) (\<lambda>ex.
                if ex
                then log_info E (''Target directory already exists: '' @ str_path (stack_root_of E)
                                 @ '' (will overwrite files).'')
                else io_then (mkdir_p E (stack_root_of E))
                             (log_info E (''Created stack root directory: ''
                                          @ str_path (stack_root_of E)))))
             (io_try (main_try E body (stack_root_of E)) (main_except E)))"

definition exit_status :: "(exc + unit) \<times> world \<Rightarrow> nat" where
  \<comment> \<open>the status of the process that runs \<^verbatim>\<open>main()\<close>: an exception that nobody catches ends
      the interpreter with status 1\<close>
  "exit_status r = (case fst r of Inr _ \<Rightarrow> 0 | Inl _ \<Rightarrow> 1)"

subsection \<open>Notions for reasoning about runs\<close>

definition preserves :: "(world \<Rightarrow> bool) \<Rightarrow> 'a io \<Rightarrow> bool" where
  \<comment> \<open>a property of the world that a command keeps, whether it returns or raises\<close>
  "preserves I m \<longleftrightarrow> (\<forall>w. I w \<longrightarrow> I (snd (m w)))"

definition returns :: "'a io \<Rightarrow> world \<Rightarrow> bool" where
  "returns m w \<longleftrightarrow> (case fst (m w) of Inr x \<Rightarrow> True | Inl e \<Rightarrow> False)"

definition can_log :: "env \<Rightarrow> path \<Rightarrow> world \<Rightarrow> bool" where
  \<comment> \<open>appending to the log file at \<open>p\<close> cannot fail: the system does not refuse it, no
      file stands where its directory should be, and the log is not a directory itself\<close>
  "can_log E p w \<longleftrightarrow>
     fault E OpMkdir (parent p) = None \<and> fault E OpAppend p = None \<and>
     \<not> list_ex (is_file w) (prefixes (parent p)) \<and> \<not> (is_dir w p)"

definition node_inv :: "path \<Rightarrow> (node option \<Rightarrow> bool) \<Rightarrow> world \<Rightarrow> bool" where
  \<comment> \<open>a property of what is found at one path\<close>
  "node_inv q P w \<longleftrightarrow> P (node_at w q)"

definition dir_closed :: "env \<Rightarrow> (node option \<Rightarrow> bool) \<Rightarrow> bool" where
  \<comment> \<open>the property survives the creation of a directory\<close>
  "dir_closed E P \<longleftrightarrow> (P None \<longrightarrow> P (Some (Dir (new_dir_mode E))))"

definition file_closed :: "env \<Rightarrow> (string \<Rightarrow> string) \<Rightarrow> (node option \<Rightarrow> bool) \<Rightarrow> bool" where
  \<comment> \<open>the property survives opening the file and changing its data by \<open>f\<close>\<close>
  "file_closed E f P \<longleftrightarrow>
     (P None \<longrightarrow> P (Some (File (new_file_mode E) (f [])))) \<and>
     (\<forall>m d. P (Some (File m d)) \<longrightarrow> P (Some (File m (f d))))"

definition x_closed :: "(node option \<Rightarrow> bool) \<Rightarrow> bool" where
  \<comment> \<open>the property survives \<^verbatim>\<open>chmod +x\<close>\<close>
  "x_closed P \<longleftrightarrow>
     (\<forall>n. P (Some n) \<longrightarrow>
        P (Some (with_perm (st_mode n OR S_IXUSR OR S_IXGRP OR S_IXOTH) n)) \<and>
        P (Some (with_perm ((st_mode n OR S_IXUSR OR S_IXGRP OR S_IXOTH) AND NOT S_ISGID) n)))"

definition log_closed :: "env \<Rightarrow> path \<Rightarrow> path \<Rightarrow> (node option \<Rightarrow> bool) \<Rightarrow> bool" where
  \<comment> \<open>the property of the node at \<open>q\<close> survives appending a line to the log file \<open>l\<close>\<close>
  "log_closed E l q P \<longleftrightarrow>
     (\<not> prefix q (root_dir E) \<or> q = [] \<or> dir_closed E P) \<and>
     (q \<noteq> l \<or> (\<forall>t. file_closed E (\<lambda>d. d @ t) P))"

definition logs_closed :: "env \<Rightarrow> path \<Rightarrow> (node option \<Rightarrow> bool) \<Rightarrow> bool" where
  "logs_closed E q P \<longleftrightarrow>
     log_closed E (ACTIONS_LOG E) q P \<and> log_closed E (ERRORS_LOG E) q P"

definition iso8601_utc :: "string \<Rightarrow> bool" where
  \<comment> \<open>the shape \<^verbatim>\<open>YYYY-MM-DDTHH:MM:SSZ\<close>: a \<open>d\<close> of the pattern stands for a decimal digit\<close>
  "iso8601_utc ts \<longleftrightarrow>
     list_all2 (\<lambda>p c. if p = CHR ''d'' then c \<in> set ''0123456789'' else c = p)
       ''dddd-dd-ddTdd:dd:ddZ'' ts"

subsection \<open>Reading a timestamp\<close>





subsection \<open>Lines of a log\<close>

definition plain :: "string \<Rightarrow> bool" where
  \<comment> \<open>a text without a newline\<close>
  "plain s \<longleftrightarrow> CHR 0x0A \<notin> set s"

definition plain_path :: "path \<Rightarrow> bool" where
  "plain_path p \<longleftrightarrow> list_all plain p"

definition plain_env :: "env \<Rightarrow> bool" where
  \<comment> \<open>no newline in the path of the script's directory, nor in the text of an exception
      that the operating system raises\<close>
  "plain_env E \<longleftrightarrow>
     plain_path (root_dir E) \<and> (\<forall>k p e. fault E k p = Some e \<longrightarrow> plain (exc_str e))"

definition plain_scripts :: "env \<Rightarrow> world \<Rightarrow> bool" where
  \<comment> \<open>no entry of the scripts directory has a newline in its name\<close>
  "plain_scripts E w \<longleftrightarrow>
     list_all (\<lambda>p. parent p = stack_root_of E @ [''scripts''] \<longrightarrow> plain_path p) (paths w)"

definition info_tag :: string where
  "info_tag = '' [INFO] [setup_stack.py]: ''"

definition error_tag :: string where
  "error_tag = '' [ERROR] [setup_stack.py]: ''"

definition error_pointer :: "env \<Rightarrow> string" where
  "error_pointer E = '' (see '' @ str_path (ERRORS_LOG E) @ '' for details)''"

definition record_line :: "string \<Rightarrow> string \<Rightarrow> string \<Rightarrow> bool" where
  \<comment> \<open>a line of the format \<^verbatim>\<open><timestamp><tag><message><pointer>\<close>\<close>
  "record_line tag pointer l \<longleftrightarrow>
     iso8601_utc (take 20 l) \<and> prefix tag (drop 20 l) \<and> suffix pointer (drop (20 + length tag) l)"

definition records :: "string \<Rightarrow> string \<Rightarrow> string \<Rightarrow> bool" where
  \<comment> \<open>a text that consists of complete lines, each of them a record of the format\<close>
  "records tag pointer t \<longleftrightarrow>
     last (split_nl t) = [] \<and> list_all (record_line tag pointer) (butlast (split_nl t))"

definition appends :: "(string \<Rightarrow> bool) \<Rightarrow> path \<Rightarrow> world \<Rightarrow> world \<Rightarrow> bool" where
  \<comment> \<open>from \<open>w\<close> to \<open>w'\<close> the file at \<open>l\<close> has kept its text and gained one with property \<open>R\<close>\<close>
  "appends R l w w' \<longleftrightarrow>
     prefix (text_of w l) (text_of w' l) \<and> R (drop (length (text_of w l)) (text_of w' l))"

definition one_line_logging :: "env \<Rightarrow> world \<Rightarrow> world \<Rightarrow> bool" where
  \<comment> \<open>from \<open>w\<close> to \<open>w'\<close> both logs have gained nothing but one-line records of their format\<close>
  "one_line_logging E w w' \<longleftrightarrow>
     appends (records info_tag []) (ACTIONS_LOG E) w w' \<and>
     appends (records error_tag (error_pointer E)) (ERRORS_LOG E) w w'"

definition tame :: "env \<Rightarrow> (world \<Rightarrow> bool) \<Rightarrow> 'a io \<Rightarrow> bool" where
  \<comment> \<open>started where \<open>I\<close> holds, the command logs one-line records only, and an exception
      that it raises has a text without a newline\<close>
  "tame E I m \<longleftrightarrow>
     (\<forall>w. I w \<longrightarrow> one_line_logging E w (snd (m w)) \<and>
           (\<forall>e. fst (m w) = Inl e \<longrightarrow> plain (exc_str e)))"

subsection \<open>A small example of an environment and a world\<close>

definition demo_env :: env where
  "demo_env =
     \<lparr>root_dir = [''srv'', ''gen''],
      clock = (\<lambda>n. \<lparr>year = 2024, month = 5, day = 17, hour = 9, minute = 3, second = n mod 60\<rparr>),
      fault = (\<lambda>k p. None),
      umask = 0x12,
      format_exc = (\<lambda>e. ''Traceback (most recent call last):'' @ [CHR 0x0A]
                          @ ''OSError: '' @ exc_str e @ [CHR 0x0A]),
      sgid_kept = (\<lambda>p. True),
      walk_rank = (\<lambda>p. 0),
      zip_bytes = (\<lambda>t es. concat (map (\<lambda>(n, d). str_path n @ ''='' @ d @ '';'') es))\<rparr>"

definition demo_world :: world where
  "demo_world =
     \<lparr>fs = [([''srv''], Dir 0x41ED), ([''srv'', ''gen''], Dir 0x41ED),
            ([''srv'', ''gen'', ''setup_stack.py''], File 0x81A4 ''#!/usr/bin/env python3'')],
      stdout = [], stderr = [], ticks = 0\<rparr>"

definition demo_body :: "path \<Rightarrow> string" where
  \<comment> \<open>an indented template body for every target, as the source's literals are\<close>
  "demo_body rel = ''\<newline>    echo '' @ path_name rel @ ''\<newline>    ''"

definition denied_env :: env where
  \<comment> \<open>the example environment with a stack root in which no directory can be created\<close>
  "denied_env =
     demo_env\<lparr>fault := (\<lambda>k p. if k = OpMkdir \<and> p = stack_root_of demo_env @ [''scripts'']
                              then Some (os_error ''[Errno 13] Permission denied'' p) else None)\<rparr>"

definition denied_world :: world where
  \<comment> \<open>the world that the generator leaves behind in \<open>denied_env\<close>\<close>
  "denied_world =
     \<lparr>fs = [([''srv''], Dir 0x41ED), ([''srv'', ''gen''], Dir 0x41ED),
            ([''srv'', ''gen'', ''setup_stack.py''], File 0x81A4 ''#!/usr/bin/env python3''),
            ([''srv'', ''gen'', ''create_stack_actions.log''],
             File 0x81A4
              (''2024-05-17T09:03:00Z [INFO] [setup_stack.py]: Generating stack version 0.1.6 in /srv/gen\<newline>''
               @ ''2024-05-17T09:03:01Z [INFO] [setup_stack.py]: Created stack root directory: /srv/gen/modular_cpu_ai_stack_v0_1_6\<newline>'')),
            ([''srv'', ''gen'', ''modular_cpu_ai_stack_v0_1_6''], Dir 0x41ED),
            ([''srv'', ''gen'', ''create_stack_errors.log''],
             File 0x81A4
              (''2024-05-17T09:03:02Z [ERROR] [setup_stack.py]: Failed to write /srv/gen/modular_cpu_ai_stack_v0_1_6/scripts/common.sh: [Errno 13] Permission denied: '/srv/gen/modular_cpu_ai_stack_v0_1_6/scripts' (see /srv/gen/create_stack_errors.log for details)\<newline>''
               @ ''2024-05-17T09:03:03Z [ERROR] [setup_stack.py]: Unhandled exception during stack generation:\<newline>''
               @ ''Traceback (most recent call last):\<newline>''
               @ ''OSError: [Errno 13] Permission denied: '/srv/gen/modular_cpu_ai_stack_v0_1_6/scripts'\<newline>''
               @ '' (see /srv/gen/create_stack_errors.log for details)\<newline>''))],
      stdout =
        ''2024-05-17T09:03:00Z [INFO] [setup_stack.py]: Generating stack version 0.1.6 in /srv/gen\<newline>''
        @ ''2024-05-17T09:03:01Z [INFO] [setup_stack.py]: Created stack root directory: /srv/gen/modular_cpu_ai_stack_v0_1_6\<newline>'',
      stderr =
        ''2024-05-17T09:03:02Z [ERROR] [setup_stack.py]: Failed to write /srv/gen/modular_cpu_ai_stack_v0_1_6/scripts/common.sh: [Errno 13] Permission denied: '/srv/gen/modular_cpu_ai_stack_v0_1_6/scripts' (see /srv/gen/create_stack_errors.log for details)\<newline>''
        @ ''2024-05-17T09:03:03Z [ERROR] [setup_stack.py]: Unhandled exception during stack generation:\<newline>''
        @ ''Traceback (most recent call last):\<newline>''
        @ ''OSError: [Errno 13] Permission denied: '/srv/gen/modular_cpu_ai_stack_v0_1_6/scripts'\<newline>''
        @ '' (see /srv/gen/create_stack_errors.log for details)\<newline>'',
      ticks = 4\<rparr>"


definition archive_entries :: "env \<Rightarrow> world \<Rightarrow> path \<Rightarrow> (path \<times> string) list" where
  \<comment> \<open>what the loop of \<open>create_zip\<close> adds to the archive in a world \<open>w\<close>: every walked file
      under its path relative to the script's directory\<close>
  "archive_entries E w stack_root =
     map (\<lambda>full. (drop (length (root_dir E)) full, text_of w full)) (walk_files E w stack_root)"

definition packed_world :: world where
  \<comment> \<open>the example world with a stack root that holds one file\<close>
  "packed_world =
     \<lparr>fs = [([''srv''], Dir 0x41ED), ([''srv'', ''gen''], Dir 0x41ED),
            ([''srv'', ''gen'', ''setup_stack.py''], File 0x81A4 ''#!/usr/bin/env python3''),
            ([''srv'', ''gen'', ''create_stack_actions.log''], File 0x81A4 ''earlier run\<newline>''),
            ([''srv'', ''gen'', ''modular_cpu_ai_stack_v0_1_6''], Dir 0x41ED),
            ([''srv'', ''gen'', ''modular_cpu_ai_stack_v0_1_6'', ''README.md''],
             File 0x81A4 ''# Stack\<newline>'')],
      stdout = [], stderr = [], ticks = 7\<rparr>"


definition not_file :: "node option \<Rightarrow> bool" where
  "not_file x = (case x of Some (File m d) \<Rightarrow> False | _ \<Rightarrow> True)"

definition not_dir :: "node option \<Rightarrow> bool" where
  "not_dir x = (case x of Some (Dir m) \<Rightarrow> False | _ \<Rightarrow> True)"

definition fault_free :: "env \<Rightarrow> bool" where
  \<comment> \<open>the operating system refuses nothing\<close>
  "fault_free E \<longleftrightarrow> (\<forall>k p. fault E k p = None)"

definition settled :: "env \<Rightarrow> world \<Rightarrow> bool" where
  \<comment> \<open>nothing of the wrong kind stands where the generator writes: no file where it needs
      a directory, no directory where it writes a file\<close>
  "settled E w \<longleftrightarrow>
     (\<forall>q. prefix q (stack_root_of E @ [''scripts'']) \<longrightarrow> node_inv q not_file w) \<and>
     node_inv (stack_root_of E @ [''logs'']) not_file w \<and>
     node_inv (ACTIONS_LOG E) not_dir w \<and>
     (\<forall>rel \<in> set template_paths. node_inv (stack_root_of E @ rel) not_dir w) \<and>
     node_inv (zip_path_of E (stack_root_of E)) not_dir w"

definition fresh :: "env \<Rightarrow> world \<Rightarrow> bool" where
  \<comment> \<open>neither the stack root nor anything below it exists\<close>
  "fresh E w \<longleftrightarrow> (\<forall>q. prefix (stack_root_of E) q \<longrightarrow> node_at w q = None)"

definition safe_spot :: "env \<Rightarrow> path \<Rightarrow> (node option \<Rightarrow> bool) \<Rightarrow> bool" where
  \<comment> \<open>a path and a property of its node that no step of \<open>main\<close> can spoil\<close>
  "safe_spot E q P \<longleftrightarrow>
     logs_closed E q P \<and>
     (dir_closed E P \<or> q = [] \<or>
        (\<not> prefix q (stack_root_of E @ [''scripts'']) \<and> \<not> prefix q (stack_root_of E @ [''logs'']))) \<and>
     ((\<forall>t. file_closed E (\<lambda>_. t) P) \<or>
        (q \<notin> (\<lambda>rel. stack_root_of E @ rel) ` set template_paths \<and>
         q \<noteq> zip_path_of E (stack_root_of E))) \<and>
     x_closed P"

definition dir_node :: "node option \<Rightarrow> bool" where
  "dir_node x = (case x of Some (Dir m) \<Rightarrow> True | _ \<Rightarrow> False)"

definition some_node :: "node option \<Rightarrow> bool" where
  "some_node x \<longleftrightarrow> x \<noteq> None"

definition finish_run :: "env \<Rightarrow> path \<Rightarrow> unit io" where
  \<comment> \<open>what the \<^verbatim>\<open>try\<close> block of \<open>main\<close> does after \<open>create_stack_files\<close>\<close>
  "finish_run E stack_root =
     io_then (io_bind (glob_sh E (stack_root @ [''scripts''])) (\<lambda>shs.
                io_seq (map (make_executable E) shs)))
    (io_then (make_executable E (stack_root @ [''install.sh'']))
    (io_then (mkdir_p E (stack_root @ [''logs'']))
    (io_bind (create_zip E stack_root) (\<lambda>zip_path.
     io_then (log_info E (''Stack files generation complete for '' @ VERSION @ ''.''))
    (io_then (log_info E (''Root directory: '' @ str_path stack_root))
    (io_then (log_info E (''ZIP archive: '' @ str_path zip_path))
             (print_stdout ([CHR 0x0A] @ ''Done.'' @ [CHR 0x0A] @ ''Root: '' @ str_path stack_root
                @ [CHR 0x0A] @ ''ZIP:  '' @ str_path zip_path @ [CHR 0x0A, CHR 0x0A]))))))))"

definition prepare_root :: "env \<Rightarrow> unit io" where
  \<comment> \<open>the \<^verbatim>\<open>if stack_root.exists()\<close> statement of \<open>main\<close>\<close>
  "prepare_root E =
     io_bind (path_exists E (stack_root_of E)) (\<lambda>ex.
       if ex
       then log_info E (''Target directory already exists: '' @ str_path (stack_root_of E)
                        @ '' (will overwrite files).'')
       else io_then (mkdir_p E (stack_root_of E))
                    (log_info E (''Created stack root directory: ''
                                 @ str_path (stack_root_of E))))"

definition main_steps :: "env \<Rightarrow> (path \<Rightarrow> string) \<Rightarrow> unit io" where
  \<comment> \<open>the statements of \<open>main\<close> in their order, without the \<^verbatim>\<open>except\<close> clause\<close>
  "main_steps E body =
     io_then (log_info E (''Generating stack version '' @ VERSION @ '' in '' @ str_path (root_dir E)))
    (io_then (prepare_root E) (main_try E body (stack_root_of E)))"

definition ready :: "env \<Rightarrow> world \<Rightarrow> bool" where
  \<comment> \<open>settled, and the script's directory exists\<close>
  "ready E w \<longleftrightarrow> settled E w \<and> is_dir w (root_dir E)"

definition content_is :: "string option \<Rightarrow> node option \<Rightarrow> bool" where
  \<comment> \<open>what the node holds if it is a file, \<open>None\<close> if it is none\<close>
  "content_is c x \<longleftrightarrow> (case x of Some (File m d) \<Rightarrow> Some d | _ \<Rightarrow> None) = c"

definition text_from :: "string \<Rightarrow> node option \<Rightarrow> bool" where
  \<comment> \<open>the text of the node, empty if it is no file, starts with \<open>t\<close>\<close>
  "text_from t x \<longleftrightarrow> prefix t (case x of Some (File m d) \<Rightarrow> d | _ \<Rightarrow> [])"

definition holds :: "string \<Rightarrow> node option \<Rightarrow> bool" where
  \<comment> \<open>a file with the given data\<close>
  "holds t x = (case x of Some (File m d) \<Rightarrow> d = t | _ \<Rightarrow> False)"

definition x_node :: "node option \<Rightarrow> bool" where
  \<comment> \<open>a node that is executable for owner, group and other\<close>
  "x_node x =
     (case x of
        Some n \<Rightarrow> st_mode n AND (S_IXUSR OR S_IXGRP OR S_IXOTH) = S_IXUSR OR S_IXGRP OR S_IXOTH
      | None \<Rightarrow> False)"

section \<open>Properties of the text functions\<close>

subsection \<open>Lines\<close>

lemma split_nl_not_Nil [simp]: "split_nl s \<noteq> []"
  by (induction s) (auto split: list.splits)

lemma join_nl_Cons: "join_nl (l # ls) = l @ concat (map ((#) CHR 0x0A) ls)"
  by (induction ls arbitrary: l) auto

lemma join_split [simp]: "join_nl (split_nl s) = s"
proof (induction s)
  case Nil
  show ?case by simp
next
  case (Cons c cs)
  obtain l ls where eq: "split_nl cs = l # ls"
    by (cases "split_nl cs") auto
  with Cons show ?case
    by (auto simp: join_nl_Cons)
qed

lemma split_nl_no_nl: "l \<in> set (split_nl s) \<Longrightarrow> CHR 0x0A \<notin> set l"
proof (induction s arbitrary: l)
  case Nil
  then show ?case by simp
next
  case (Cons c cs)
  obtain k ks where eq: "split_nl cs = k # ks"
    by (cases "split_nl cs") auto
  with Cons show ?case
    by (auto split: if_splits)
qed

lemma split_nl_append_line:
  "CHR 0x0A \<notin> set l \<Longrightarrow> split_nl (l @ CHR 0x0A # s) = l # split_nl s"
  by (induction l) auto

lemma split_nl_line: "CHR 0x0A \<notin> set l \<Longrightarrow> split_nl l = [l]"
  by (induction l) auto

lemma split_join:
  "ls \<noteq> [] \<Longrightarrow> \<forall>l \<in> set ls. CHR 0x0A \<notin> set l \<Longrightarrow> split_nl (join_nl ls) = ls"
proof (induction ls rule: join_nl.induct)
  case 1
  then show ?case by simp
next
  case (2 l)
  then show ?case by (simp add: split_nl_line)
next
  case (3 l k ks)
  then show ?case by (simp add: split_nl_append_line)
qed

lemma split_lstrip:
  "split_nl (lstrip_nl s) =
     (case dropWhile (\<lambda>l. l = []) (split_nl s) of [] \<Rightarrow> [[]] | k # ks \<Rightarrow> k # ks)"
proof (induction s)
  case Nil
  show ?case by (simp add: lstrip_nl_def)
next
  case (Cons c cs)
  obtain k ks where eq: "split_nl cs = k # ks"
    by (cases "split_nl cs") auto
  with Cons show ?case
    by (auto simp: lstrip_nl_def)
qed

lemma lstrip_join:
  "lstrip_nl (join_nl ls) = join_nl (dropWhile (\<lambda>l. l = []) ls)"
  if "\<forall>l \<in> set ls. CHR 0x0A \<notin> set l"
  using that
proof (induction ls rule: join_nl.induct)
  case 1
  then show ?case by (simp add: lstrip_nl_def)
next
  case (2 l)
  then show ?case by (cases l) (auto simp: lstrip_nl_def)
next
  case (3 l k ks)
  then show ?case by (cases l) (auto simp: lstrip_nl_def)
qed


subsection \<open>The margin is the longest common prefix of the indentations\<close>

lemma first_mismatch_None:
  "first_mismatch xs ys i = None \<Longrightarrow> prefix xs ys \<or> prefix ys xs"
  by (induction xs ys i rule: first_mismatch.induct) (auto split: if_splits)

lemma first_mismatch_Some:
  "first_mismatch xs ys i = Some k \<Longrightarrow> i \<le> k \<and> take (k - i) xs = longest_common_prefix xs ys"
proof (induction xs ys i rule: first_mismatch.induct)
  case (1 x xs y ys i)
  show ?case
  proof (cases "x = y")
    case True
    with 1 have "Suc i \<le> k" and "take (k - Suc i) xs = longest_common_prefix xs ys"
      by auto
    with True show ?thesis
      by (simp add: Suc_diff_le take_Cons')
  next
    case False
    with 1 show ?thesis by simp
  qed
qed simp_all

lemma lcp_prefix_left: "prefix xs ys \<Longrightarrow> longest_common_prefix xs ys = xs"
  by (induction xs ys rule: longest_common_prefix.induct) auto

lemma lcp_prefix_right: "prefix ys xs \<Longrightarrow> longest_common_prefix xs ys = ys"
  by (induction xs ys rule: longest_common_prefix.induct) auto

lemma margin_step_Some:
  "margin_step (Some m) i = Some (longest_common_prefix m i)"
proof (cases "first_mismatch m i 0")
  case None
  from first_mismatch_None [OF this] show ?thesis
    by (auto simp: lcp_prefix_left lcp_prefix_right None)
next
  case (Some k)
  from first_mismatch_Some [OF this] show ?thesis
    by (auto simp: lcp_prefix_left lcp_prefix_right Some)
qed

lemma foldl_margin_step_Some:
  "foldl margin_step (Some m) is = Some (foldl longest_common_prefix m is)"
  by (induction "is" arbitrary: m) (simp_all add: margin_step_Some del: margin_step.simps)

lemma foldl_lcp_lower:
  "prefix (foldl longest_common_prefix m is) m \<and>
   (\<forall>i \<in> set is. prefix (foldl longest_common_prefix m is) i)"
proof (induction "is" arbitrary: m)
  case Nil
  show ?case by simp
next
  case (Cons a as)
  have "prefix (foldl longest_common_prefix (longest_common_prefix m a) as)
          (longest_common_prefix m a)"
    using Cons by blast
  then show ?case
    using Cons [of "longest_common_prefix m a"]
      longest_common_prefix_prefix1 [of m a] longest_common_prefix_prefix2 [of m a]
    by (auto intro: prefix_order.trans)
qed

lemma foldl_lcp_greatest:
  "prefix p m \<Longrightarrow> \<forall>i \<in> set is. prefix p i \<Longrightarrow> prefix p (foldl longest_common_prefix m is)"
  by (induction "is" arbitrary: m) (auto intro: longest_common_prefix_max_prefix)

lemma margin_of_lower: "i \<in> set is \<Longrightarrow> prefix (margin_of is) i"
  by (cases "is") (use foldl_lcp_lower in \<open>auto simp: margin_of_def foldl_margin_step_Some\<close>)

lemma margin_of_greatest:
  "is \<noteq> [] \<Longrightarrow> \<forall>i \<in> set is. prefix p i \<Longrightarrow> prefix p (margin_of is)"
  by (cases "is") (auto simp: margin_of_def foldl_margin_step_Some intro: foldl_lcp_greatest)

lemma margin_of_Nil [simp]: "margin_of [] = []"
  by (simp add: margin_of_def)

lemma margin_of_drop:
  "margin_of (map (drop (length (margin_of is))) is) = []"
proof (cases "is = []")
  case True
  then show ?thesis by simp
next
  case False
  let ?m = "margin_of is"
  let ?js = "map (drop (length ?m)) is"
  let ?n = "margin_of ?js"
  have "prefix (?m @ ?n) i" if "i \<in> set is" for i
  proof -
    from that have "prefix ?m i" by (rule margin_of_lower)
    then have i: "i = ?m @ drop (length ?m) i"
      by (auto simp: prefix_def)
    from that have "prefix ?n (drop (length ?m) i)"
      by (intro margin_of_lower) simp
    with i show ?thesis
      by (metis same_prefix_prefix)
  qed
  then have "prefix (?m @ ?n) ?m"
    using False by (intro margin_of_greatest) auto
  then show ?thesis
    by (simp add: prefix_def)
qed


subsection \<open>\<open>dedent\<close> line by line\<close>

lemma blank_Nil [simp]: "blank []"
  by (simp add: blank_def)

lemma tidy_blank_out_split: "tidy (blank_out (split_nl c))"
  by (auto simp: tidy_def blank_out_def dest: split_nl_no_nl)

lemma blank_out_tidy: "tidy ls \<Longrightarrow> blank_out ls = ls"
  by (auto simp: tidy_def blank_out_def intro!: map_idI)

lemma split_whitespace_only_sub:
  "split_nl (whitespace_only_sub c) = blank_out (split_nl c)"
  using tidy_blank_out_split [of c]
  by (simp add: whitespace_only_sub_def blank_out_def [symmetric] tidy_def split_join)

lemma strip_margin_Nil [simp]: "strip_margin [] = (\<lambda>l. l)"
  by (rule ext) (simp add: strip_margin_def)

lemma dedent_lines:
  "dedent c = join_nl (map (strip_margin (margin_of (indents (blank_out (split_nl c)))))
                        (blank_out (split_nl c)))"
proof -
  let ?L = "blank_out (split_nl c)"
  have w: "whitespace_only_sub c = join_nl ?L"
    by (simp add: whitespace_only_sub_def blank_out_def)
  have f: "leading_whitespace_findall (whitespace_only_sub c) = indents ?L"
    by (simp add: leading_whitespace_findall_def split_whitespace_only_sub indents_def)
  have s: "sub_margin m (whitespace_only_sub c) = join_nl (map (strip_margin m) ?L)" for m
    by (simp add: sub_margin_def split_whitespace_only_sub)
  show ?thesis
    by (cases "foldl margin_step None (indents ?L)")
      (auto simp: dedent_def Let_def f s margin_of_def w [symmetric] map_idI)
qed

lemma dedent_tidy:
  assumes "tidy ls" and "margin_of (indents ls) = []"
  shows "dedent (join_nl ls) = join_nl ls"
proof -
  from assms(1) have "split_nl (join_nl ls) = ls"
    by (simp add: tidy_def split_join)
  with assms show ?thesis
    by (simp add: dedent_lines blank_out_tidy)
qed

lemma nonblank_split:
  assumes "\<not> blank l"
  obtains c r where "l = takeWhile is_ws l @ c # r" and "\<not> is_ws c"
proof -
  from assms have "dropWhile is_ws l \<noteq> []"
    by (simp add: blank_def list_all_iff)
  then obtain c r where d: "dropWhile is_ws l = c # r"
    by (cases "dropWhile is_ws l") auto
  then have "\<not> is_ws c"
    by (metis hd_dropWhile list.sel(1) list.distinct(1))
  moreover have "l = takeWhile is_ws l @ c # r"
    using d by (metis takeWhile_dropWhile_id)
  ultimately show ?thesis using that by blast
qed

lemma strip_margin_nonblank:
  assumes nb: "\<not> blank l" and m: "prefix m (takeWhile is_ws l)"
  shows "\<not> blank (strip_margin m l)"
    and "takeWhile is_ws (strip_margin m l) = drop (length m) (takeWhile is_ws l)"
proof -
  from nb obtain c r where l: "l = takeWhile is_ws l @ c # r" and c: "\<not> is_ws c"
    by (rule nonblank_split)
  from m obtain t where t: "takeWhile is_ws l = m @ t"
    by (auto simp: prefix_def)
  have tw: "list_all is_ws t"
    by (metis t list_all_append list_all_iff set_takeWhileD)
  have l': "l = m @ t @ c # r"
    using l t by simp
  have s: "strip_margin m l = t @ c # r"
    by (subst l') (simp add: strip_margin_def)
  show "\<not> blank (strip_margin m l)"
    using c by (simp add: s blank_def)
  have "takeWhile is_ws (t @ c # r) = t"
    using tw c by (simp add: takeWhile_append2 list_all_iff takeWhile_tail)
  then show "takeWhile is_ws (strip_margin m l) = drop (length m) (takeWhile is_ws l)"
    by (simp add: s t)
qed

lemma strip_margin_lines:
  assumes "tidy ls"
  defines "m \<equiv> margin_of (indents ls)"
  shows "tidy (map (strip_margin m) ls)"
    and "indents (map (strip_margin m) ls) = map (drop (length m)) (indents ls)"
proof -
  have pm: "prefix m (takeWhile is_ws l)" if "l \<in> set ls" "\<not> blank l" for l
    unfolding m_def using that by (intro margin_of_lower) (simp add: indents_def)
  have nl: "CHR 0x0A \<notin> set (strip_margin m l)" if "l \<in> set ls" for l
    using that assms(1) by (auto simp: tidy_def strip_margin_def dest: in_set_dropD)
  have bl: "blank (strip_margin m l) \<longleftrightarrow> blank l" if "l \<in> set ls" for l
  proof (cases "blank l")
    case True
    with that assms(1) have "l = []" by (simp add: tidy_def)
    then show ?thesis by (simp add: strip_margin_def)
  next
    case False
    with pm that strip_margin_nonblank(1) show ?thesis by blast
  qed
  have em: "strip_margin m l = []" if "l \<in> set ls" "blank l" for l
    using that assms(1) by (auto simp: tidy_def strip_margin_def)
  show "tidy (map (strip_margin m) ls)"
    using assms(1) nl bl em by (auto simp: tidy_def)
  have "filter (\<lambda>l. \<not> blank l) (map (strip_margin m) ls)
          = map (strip_margin m) (filter (\<lambda>l. \<not> blank l) ls)"
    using bl by (induction ls) auto
  then show "indents (map (strip_margin m) ls) = map (drop (length m)) (indents ls)"
    using pm strip_margin_nonblank(2) by (simp add: indents_def)
qed

lemma dedent_normal:
  obtains ls where "dedent c = join_nl ls" and "tidy ls" and "margin_of (indents ls) = []"
proof -
  let ?L = "blank_out (split_nl c)"
  let ?m = "margin_of (indents ?L)"
  have "margin_of (indents (map (strip_margin ?m) ?L)) = []"
    using strip_margin_lines(2) [OF tidy_blank_out_split, of c] margin_of_drop by simp
  with dedent_lines [of c] strip_margin_lines(1) [OF tidy_blank_out_split, of c]
  show ?thesis by (rule that)
qed

lemma indents_dropWhile_Nil: "indents (dropWhile (\<lambda>l. l = []) ls) = indents ls"
  by (induction ls) (auto simp: indents_def)

subsection \<open>The margin in the words of the specification\<close>

lemma last_filter_prefixes:
  "x \<in> set (filter P (prefixes xs)) \<Longrightarrow> prefix x (last (filter P (prefixes xs)))"
proof (induction xs rule: rev_induct)
  case Nil
  then show ?case by (simp split: if_splits)
next
  case (snoc a xs)
  show ?case
  proof (cases "P (xs @ [a])")
    case True
    with snoc.prems show ?thesis by auto
  next
    case False
    with snoc show ?thesis by auto
  qed
qed

lemma prefix_takeWhile: "prefix p l \<Longrightarrow> \<forall>c \<in> set p. P c \<Longrightarrow> prefix p (takeWhile P l)"
  by (auto simp: prefix_def takeWhile_append2)

lemma spec_common_prefix_margin: "spec_common_prefix ls = margin_of (indents ls)"
proof (cases "filter (\<lambda>l. \<not> blank l) ls")
  case Nil
  then show ?thesis by (simp add: spec_common_prefix_def indents_def)
next
  case (Cons l rest)
  let ?i = "takeWhile is_ws l"
  let ?m = "margin_of (indents ls)"
  let ?F = "filter (\<lambda>p. list_all (prefix p) rest) (prefixes ?i)"
  have ind: "indents ls = ?i # map (takeWhile is_ws) rest"
    by (simp add: indents_def Cons)
  have spec: "spec_common_prefix ls = last ?F"
    by (simp add: spec_common_prefix_def Cons)
  have mi: "prefix ?m ?i"
    by (rule margin_of_lower) (simp add: ind)
  have "prefix ?m r" if "r \<in> set rest" for r
  proof -
    have "prefix ?m (takeWhile is_ws r)"
      using that by (intro margin_of_lower) (simp add: ind)
    then show ?thesis
      by (metis prefix_order.trans takeWhile_is_prefix)
  qed
  with mi have mF: "?m \<in> set ?F"
    by (simp add: list_all_iff)
  then have m_le: "prefix ?m (last ?F)"
    by (rule last_filter_prefixes)
  from mF have "?F \<noteq> []"
    by (metis list.set(1) empty_iff)
  then have "last ?F \<in> set ?F" by (rule last_in_set)
  then have pi: "prefix (last ?F) ?i" and pr: "\<forall>r \<in> set rest. prefix (last ?F) r"
    by (simp_all add: list_all_iff)
  from pi have ws: "\<forall>c \<in> set (last ?F). is_ws c"
    by (metis set_takeWhileD set_mono_prefix subsetD)
  have "\<forall>i \<in> set (indents ls). prefix (last ?F) i"
    using pi pr ws by (auto simp: ind intro: prefix_takeWhile)
  then have "prefix (last ?F) ?m"
    by (intro margin_of_greatest) (simp_all add: ind)
  with m_le show ?thesis
    by (simp add: spec prefix_order.antisym)
qed

lemma dropWhile_blank_tidy: "tidy ls \<Longrightarrow> dropWhile blank ls = dropWhile (\<lambda>l. l = []) ls"
  by (intro dropWhile_cong) (auto simp: tidy_def)

lemma dedent_lstrip_spec: "lstrip_nl (dedent c) = spec_write_text (whitespace_only_sub c)"
proof -
  let ?L = "blank_out (split_nl c)"
  let ?m = "margin_of (indents ?L)"
  have t: "tidy (map (strip_margin ?m) ?L)"
    by (rule strip_margin_lines(1) [OF tidy_blank_out_split])
  then have "lstrip_nl (dedent c) = join_nl (dropWhile blank (map (strip_margin ?m) ?L))"
    by (simp add: dedent_lines lstrip_join tidy_def dropWhile_blank_tidy)
  then show ?thesis
    by (simp add: spec_write_text_def Let_def split_whitespace_only_sub
        spec_common_prefix_margin)
qed

section \<open>Properties of the world model\<close>

subsection \<open>Sequencing\<close>

lemma io_bind_cases:
  assumes "io_bind m f w = (r, w'')"
  obtains (raised) e where "m w = (Inl e, w'')" and "r = Inl e"
  | (returned) x w' where "m w = (Inr x, w')" and "f x w' = (r, w'')"
  using assms by (auto simp: io_bind_def split: prod.splits sum.splits)

lemma io_then_cases:
  assumes "io_then m n w = (r, w'')"
  obtains (raised) e where "m w = (Inl e, w'')" and "r = Inl e"
  | (returned) x w' where "m w = (Inr x, w')" and "n w' = (r, w'')"
  using assms unfolding io_then_def by (rule io_bind_cases)

lemma io_try_cases:
  assumes "io_try m h w = (r, w'')"
  obtains (caught) e w' where "m w = (Inl e, w')" and "h e w' = (r, w'')"
  | (returned) x where "m w = (Inr x, w'')" and "r = Inr x"
  using assms by (auto simp: io_try_def split: prod.splits sum.splits)

lemma io_bind_Inr: "m w = (Inr x, w') \<Longrightarrow> io_bind m f w = f x w'"
  by (simp add: io_bind_def)

lemma io_bind_Inl: "m w = (Inl e, w') \<Longrightarrow> io_bind m f w = (Inl e, w')"
  by (simp add: io_bind_def)

lemma io_then_Inr: "m w = (Inr x, w') \<Longrightarrow> io_then m n w = n w'"
  by (simp add: io_then_def io_bind_def)

lemma io_then_Inl: "m w = (Inl e, w') \<Longrightarrow> io_then m n w = (Inl e, w')"
  by (simp add: io_then_def io_bind_def)

lemma io_try_Inr: "m w = (Inr x, w') \<Longrightarrow> io_try m h w = (Inr x, w')"
  by (simp add: io_try_def)

lemma io_try_Inl: "m w = (Inl e, w') \<Longrightarrow> io_try m h w = h e w'"
  by (simp add: io_try_def)

lemma io_seq_append_Inr:
  "io_seq ms w = (Inr (), w') \<Longrightarrow> io_seq (ms @ ns) w = io_seq ns w'"
proof (induction ms arbitrary: w)
  case Nil
  then show ?case by (simp add: io_return_def)
next
  case (Cons m ms)
  from Cons.prems show ?case
    by (auto simp: io_then_Inr Cons.IH elim!: io_then_cases)
qed

lemma io_seq_raises:
  "io_seq ms w = (Inl e, w') \<Longrightarrow>
     \<exists>pre m post w1. ms = pre @ m # post \<and> io_seq pre w = (Inr (), w1) \<and> m w1 = (Inl e, w')"
proof (induction ms arbitrary: w)
  case Nil
  then show ?case by (simp add: io_return_def)
next
  case (Cons m ms)
  from Cons.prems have "io_then m (io_seq ms) w = (Inl e, w')"
    by simp
  then show ?case
  proof (cases rule: io_then_cases)
    case (raised e')
    then have "m # ms = [] @ m # ms \<and> io_seq [] w = (Inr (), w) \<and> m w = (Inl e, w')"
      by (simp add: io_return_def)
    then show ?thesis by blast
  next
    case (returned x w1)
    from Cons.IH [OF returned(2)] obtain pre k post w2 where "ms = pre @ k # post"
      and "io_seq pre w1 = (Inr (), w2)" and "k w2 = (Inl e, w')"
      by blast
    with returned(1)
    have "m # ms = (m # pre) @ k # post \<and> io_seq (m # pre) w = (Inr (), w2) \<and> k w2 = (Inl e, w')"
      by (simp add: io_then_Inr)
    then show ?thesis by blast
  qed
qed

subsection \<open>Invariants\<close>

lemma preservesD: "preserves I m \<Longrightarrow> I w \<Longrightarrow> m w = (r, w') \<Longrightarrow> I w'"
  by (auto simp: preserves_def)

lemma preserves_return [intro!]: "preserves I (io_return x)"
  by (simp add: preserves_def io_return_def)

lemma preserves_raise [intro!]: "preserves I (io_raise e)"
  by (simp add: preserves_def io_raise_def)

lemma preserves_bind [intro!]:
  "preserves I m \<Longrightarrow> (\<And>x. preserves I (f x)) \<Longrightarrow> preserves I (io_bind m f)"
  by (auto simp: preserves_def io_bind_def split: prod.splits sum.splits)

lemma preserves_then [intro!]:
  "preserves I m \<Longrightarrow> preserves I n \<Longrightarrow> preserves I (io_then m n)"
  by (simp add: io_then_def preserves_bind)

lemma preserves_try [intro!]:
  "preserves I m \<Longrightarrow> (\<And>e. preserves I (h e)) \<Longrightarrow> preserves I (io_try m h)"
  by (auto simp: preserves_def io_try_def split: prod.splits sum.splits)

lemma preserves_seq:
  "(\<And>m. m \<in> set ms \<Longrightarrow> preserves I m) \<Longrightarrow> preserves I (io_seq ms)"
  by (induction ms) auto

lemma preserves_if [intro!]:
  "preserves I m \<Longrightarrow> preserves I n \<Longrightarrow> preserves I (if b then m else n)"
  by simp

subsection \<open>The primitives, seen through \<open>node_at\<close>\<close>

lemma node_at_set_node [simp]:
  "node_at (set_node p n w) q = (if q = p then Some n else node_at w q)"
  by (simp add: node_at_def set_node_def update_conv')

lemma set_node_fields [simp]:
  "stdout (set_node p n w) = stdout w" "stderr (set_node p n w) = stderr w"
  "ticks (set_node p n w) = ticks w"
  by (simp_all add: set_node_def)

lemma set_paths: "set (paths w) = {p. node_at w p \<noteq> None}"
  by (auto simp: paths_def node_at_def map_of_eq_None_iff)

lemma distinct_paths [simp]: "distinct (paths w)"
  by (simp add: paths_def)

lemma mkdir_fold_node:
  "node_at (foldl (\<lambda>v q. if node_at v q = None \<and> q \<noteq> [] then set_node q n v else v) w qs) x
     = (if x \<in> set qs \<and> x \<noteq> [] \<and> node_at w x = None then Some n else node_at w x)"
  by (induction qs arbitrary: w) auto

lemma mkdir_fold_fields:
  "stdout (foldl (\<lambda>v q. if node_at v q = None \<and> q \<noteq> [] then set_node q n v else v) w qs) = stdout w"
  "stderr (foldl (\<lambda>v q. if node_at v q = None \<and> q \<noteq> [] then set_node q n v else v) w qs) = stderr w"
  "ticks (foldl (\<lambda>v q. if node_at v q = None \<and> q \<noteq> [] then set_node q n v else v) w qs) = ticks w"
  by (induction qs arbitrary: w) auto

lemma mkdir_p_node:
  "node_at (snd (mkdir_p E p w)) q =
     (if returns (mkdir_p E p) w \<and> prefix q p \<and> q \<noteq> [] \<and> node_at w q = None
      then Some (Dir (new_dir_mode E)) else node_at w q)"
  by (auto simp: mkdir_p_def returns_def mkdir_fold_node split: option.splits)

lemma prefixes_snoc_self: "prefixes p = butlast (prefixes p) @ [p]"
  by (metis append_butlast_last_id last_prefixes prefixes_not_Nil)

lemma list_ex_prefixes:
  "list_ex P (prefixes p) \<longleftrightarrow> list_ex P (butlast (prefixes p)) \<or> P p"
proof -
  have "list_ex P (prefixes p) \<longleftrightarrow> list_ex P (butlast (prefixes p) @ [p])"
    by (simp only: prefixes_snoc_self [symmetric])
  then show ?thesis
    by simp
qed

lemma mkdir_p_returns:
  "returns (mkdir_p E p) w \<longleftrightarrow>
     fault E OpMkdir p = None \<and> \<not> list_ex (is_file w) (prefixes p)"
  by (auto simp: mkdir_p_def returns_def list_ex_prefixes [of _ p] split: option.splits)

lemma open_file_node:
  "node_at (snd (open_file E k p f w)) q =
     (if returns (open_file E k p f) w \<and> q = p
      then Some (File (case node_at w p of Some n \<Rightarrow> st_mode n | None \<Rightarrow> new_file_mode E)
                      (f (text_of w p)))
      else node_at w q)"
  by (auto simp: open_file_def returns_def text_of_def content_at_def
      split: option.splits node.splits)

lemma open_file_returns:
  "returns (open_file E k p f) w \<longleftrightarrow>
     fault E k p = None \<and> is_dir w (parent p) \<and> p \<noteq> [] \<and> \<not> is_dir w p"
  by (auto simp: open_file_def returns_def is_dir_def split: option.splits node.splits)

lemma chmod_node:
  "node_at (snd (chmod E p m w)) q =
     (if returns (chmod E p m) w \<and> q = p
      then map_option (with_perm (granted E p m)) (node_at w p)
      else node_at w q)"
  by (auto simp: chmod_def returns_def split: option.splits)

lemma stat_mode_world [simp]: "snd (stat_mode E p w) = w"
  by (simp add: stat_mode_def split: option.splits)

lemma path_exists_world [simp]: "snd (path_exists E p w) = w"
  by (simp add: path_exists_def split: option.splits)

lemma glob_sh_world [simp]: "snd (glob_sh E d w) = w"
  by (simp add: glob_sh_def)

lemma glob_sh_set:
  "p \<in> set (projr (fst (glob_sh E d w))) \<Longrightarrow>
     p \<noteq> [] \<and> parent p = d \<and> suffix ''.sh'' (path_name p) \<and> node_at w p \<noteq> None"
  by (auto simp: glob_sh_def set_paths split: if_splits)

lemma io_bind_glob:
  "io_bind (glob_sh E d) f w = f (projr (fst (glob_sh E d w))) w"
  by (simp add: io_bind_def glob_sh_def)

lemma timestamp_node [simp]: "node_at (snd (timestamp_utc E w)) q = node_at w q"
  by (simp add: timestamp_utc_def node_at_def)

lemma print_node [simp]:
  "node_at (snd (print_stdout s w)) q = node_at w q"
  "node_at (snd (print_stderr s w)) q = node_at w q"
  by (simp_all add: print_stdout_def print_stderr_def node_at_def)

lemma zip_file_node:
  "q \<noteq> zp \<Longrightarrow> node_at (snd (zip_file E zp sr w)) q = node_at w q"
  by (auto simp: zip_file_def io_then_def io_bind_def write_text_def open_file_def
      split: prod.splits sum.splits option.splits node.splits if_splits)

subsection \<open>What a command leaves as it is\<close>

lemma preserves_mkdir_p:
  "\<not> prefix q p \<or> q = [] \<or> dir_closed E P \<Longrightarrow> preserves (node_inv q P) (mkdir_p E p)"
  by (auto simp: preserves_def node_inv_def mkdir_p_node dir_closed_def)

lemma preserves_open_file:
  "q \<noteq> p \<or> file_closed E f P \<Longrightarrow> preserves (node_inv q P) (open_file E k p f)"
  by (auto simp: preserves_def node_inv_def open_file_node open_file_returns file_closed_def
      text_of_def content_at_def is_dir_def split: option.splits node.splits)

lemma preserves_chmod_x:
  "q \<noteq> p \<or> x_closed P \<Longrightarrow>
     preserves (node_inv q P) (io_bind (stat_mode E p) (\<lambda>mode.
        chmod E p (mode OR S_IXUSR OR S_IXGRP OR S_IXOTH)))"
  by (auto simp: preserves_def node_inv_def io_bind_def stat_mode_def chmod_def x_closed_def
      granted_def split: option.splits prod.splits sum.splits)

lemma preserves_timestamp [intro!]: "preserves (node_inv q P) (timestamp_utc E)"
  by (simp add: preserves_def node_inv_def)

lemma preserves_print [intro!]:
  "preserves (node_inv q P) (print_stdout s)" "preserves (node_inv q P) (print_stderr s)"
  by (simp_all add: preserves_def node_inv_def)

lemma preserves_world_id:
  "(\<And>w. snd (m w) = w) \<Longrightarrow> preserves I m"
  by (simp add: preserves_def)

lemma preserves_append_log:
  assumes "\<not> prefix q (parent p) \<or> q = [] \<or> dir_closed E P"
    and "q \<noteq> p \<or> file_closed E (\<lambda>d. d @ t) P"
  shows "preserves (node_inv q P) (append_log E p t)"
  unfolding append_log_def append_text_def
  using assms by (intro preserves_then preserves_mkdir_p preserves_open_file)

lemma parent_log [simp]:
  "parent (ACTIONS_LOG E) = root_dir E" "parent (ERRORS_LOG E) = root_dir E"
  by (simp_all add: parent_def ACTIONS_LOG_def ERRORS_LOG_def)

lemma log_neq [simp]: "ACTIONS_LOG E \<noteq> ERRORS_LOG E" "ERRORS_LOG E \<noteq> ACTIONS_LOG E"
  by (simp_all add: ACTIONS_LOG_def ERRORS_LOG_def)

lemma preserves_log_info:
  "log_closed E (ACTIONS_LOG E) q P \<Longrightarrow> preserves (node_inv q P) (log_info E msg)"
  unfolding log_info_def
  by (intro preserves_bind preserves_then preserves_append_log preserves_timestamp
      preserves_print) (auto simp: log_closed_def)

lemma preserves_log_error:
  "log_closed E (ERRORS_LOG E) q P \<Longrightarrow> preserves (node_inv q P) (log_error E msg)"
  unfolding log_error_def
  by (intro preserves_bind preserves_then preserves_append_log preserves_timestamp
      preserves_print) (auto simp: log_closed_def)

lemma preserves_safe_write:
  assumes "logs_closed E q P"
    and "\<not> prefix q (parent p) \<or> q = [] \<or> dir_closed E P"
    and "q \<noteq> p \<or> (\<forall>t. file_closed E (\<lambda>_. t) P)"
  shows "preserves (node_inv q P) (safe_write E p c)"
  unfolding safe_write_def write_text_def
  using assms
  by (intro preserves_try preserves_then preserves_mkdir_p preserves_open_file
      preserves_log_info preserves_log_error preserves_raise) (auto simp: logs_closed_def)

lemma preserves_make_executable:
  assumes "logs_closed E q P" and "q \<noteq> p \<or> x_closed P"
  shows "preserves (node_inv q P) (make_executable E p)"
proof -
  have eq: "make_executable E p =
    io_try (io_then (io_bind (stat_mode E p) (\<lambda>mode.
                       chmod E p (mode OR S_IXUSR OR S_IXGRP OR S_IXOTH)))
                    (log_info E (''Marked executable: '' @ str_path p)))
      (\<lambda>exc. io_then (log_error E (''Failed to chmod +x '' @ str_path p @ '': '' @ exc_str exc))
                      (io_raise exc))"
    by (rule ext)
      (simp add: make_executable_def io_try_def io_then_def io_bind_def
        split: prod.splits sum.splits)
  show ?thesis
    unfolding eq using assms
    by (intro preserves_try preserves_then preserves_chmod_x preserves_log_info
        preserves_log_error preserves_raise) (auto simp: logs_closed_def)
qed

lemma preserves_conj:
  "preserves I m \<Longrightarrow> preserves J m \<Longrightarrow> preserves (\<lambda>w. I w \<and> J w) m"
  by (simp add: preserves_def)

lemma preserves_all:
  "(\<And>x. preserves (I x) m) \<Longrightarrow> preserves (\<lambda>w. \<forall>x. I x w) m"
  by (simp add: preserves_def)

lemma preserves_ball:
  "(\<And>x. x \<in> A \<Longrightarrow> preserves (I x) m) \<Longrightarrow> preserves (\<lambda>w. \<forall>x \<in> A. I x w) m"
  by (simp add: preserves_def)

subsection \<open>Permission bits\<close>

lemma perm_bits_mask: "perm_bits = mask 12"
  by (simp add: perm_bits_def mask_eq_exp_minus_1)

lemma x_bits_exp: "S_IXUSR = 2 ^ 6" "S_IXGRP = 2 ^ 3" "S_IXOTH = 2 ^ 0"
  by (simp_all add: S_IXUSR_def S_IXGRP_def S_IXOTH_def)

lemma bit_x_mode:
  "bit (t OR S_IXUSR OR S_IXGRP OR S_IXOTH) i \<longleftrightarrow> bit t i \<or> i = 6 \<or> i = 3 \<or> i = 0"
proof -
  have "bit (t OR 2 ^ 6 OR 2 ^ 3 OR 2 ^ 0) i \<longleftrightarrow> bit t i \<or> i = 6 \<or> i = 3 \<or> i = 0"
    by (simp only: bit_or_iff bit_exp_iff) (auto simp: possible_bit_word)
  then show ?thesis
    by (simp only: x_bits_exp)
qed

lemma chmod_x_mode:
  "(t AND NOT perm_bits) OR ((t OR S_IXUSR OR S_IXGRP OR S_IXOTH) AND perm_bits)
     = t OR S_IXUSR OR S_IXGRP OR S_IXOTH"
proof -
  define x where "x = t OR S_IXUSR OR S_IXGRP OR S_IXOTH"
  have bx: "bit x i \<longleftrightarrow> bit t i \<or> i = 6 \<or> i = 3 \<or> i = 0" for i
    by (simp only: x_def bit_x_mode)
  have "(t AND NOT (mask 12)) OR (x AND mask 12) = x"
  proof (rule bit_word_eqI)
    fix i
    assume "i < LENGTH(32)"
    then have "bit ((t AND NOT (mask 12)) OR (x AND mask 12)) i
        \<longleftrightarrow> (bit t i \<and> \<not> i < 12) \<or> (bit x i \<and> i < 12)"
      by (auto simp: bit_simps)
    then show "bit ((t AND NOT (mask 12)) OR (x AND mask 12)) i \<longleftrightarrow> bit x i"
      by (auto simp: bx)
  qed
  then show ?thesis
    by (simp only: x_def perm_bits_mask)
qed

lemma bit_sgid: "bit S_ISGID i \<longleftrightarrow> i = 10"
proof -
  have "bit ((2 :: 32 word) ^ 10) i \<longleftrightarrow> i = 10"
    by (simp only: bit_exp_iff) (auto simp: possible_bit_word)
  moreover have "S_ISGID = 2 ^ 10"
    by (simp add: S_ISGID_def)
  ultimately show ?thesis
    by (simp only:)
qed

lemma bit_granted_x:
  "bit (granted E p (t OR S_IXUSR OR S_IXGRP OR S_IXOTH)) i
     \<longleftrightarrow> (if i = 10 then bit t 10 \<and> sgid_kept E p else bit t i \<or> i = 6 \<or> i = 3 \<or> i = 0)"
proof -
  define x where "x = t OR S_IXUSR OR S_IXGRP OR S_IXOTH"
  have bx: "bit x i \<longleftrightarrow> bit t i \<or> i = 6 \<or> i = 3 \<or> i = 0" for i
    by (simp only: x_def bit_x_mode)
  have "bit (x AND NOT S_ISGID) i \<longleftrightarrow> bit x i \<and> i \<noteq> 10"
    by (auto simp: bit_and_iff bit_not_iff bit_sgid dest: bit_imp_possible_bit)
  then have "bit (granted E p x) i \<longleftrightarrow> bit x i \<and> (i \<noteq> 10 \<or> sgid_kept E p)"
    by (auto simp: granted_def)
  then show ?thesis
    unfolding x_def [symmetric] by (auto simp: bx)
qed

lemma granted_same:
  assumes "sgid_kept E p \<or> \<not> bit t 10"
  shows "granted E p (t OR S_IXUSR OR S_IXGRP OR S_IXOTH) = t OR S_IXUSR OR S_IXGRP OR S_IXOTH"
proof (rule bit_eqI)
  fix i
  show "bit (granted E p (t OR S_IXUSR OR S_IXGRP OR S_IXOTH)) i
      \<longleftrightarrow> bit (t OR S_IXUSR OR S_IXGRP OR S_IXOTH) i"
    using assms by (auto simp only: bit_granted_x bit_x_mode split: if_splits)
qed

lemma chmod_x_mode_sgid:
  "(t AND NOT perm_bits) OR (((t OR S_IXUSR OR S_IXGRP OR S_IXOTH) AND NOT S_ISGID) AND perm_bits)
     = (t OR S_IXUSR OR S_IXGRP OR S_IXOTH) AND NOT S_ISGID"
proof -
  define x where "x = t OR S_IXUSR OR S_IXGRP OR S_IXOTH"
  have bx: "bit x i \<longleftrightarrow> bit t i \<or> i = 6 \<or> i = 3 \<or> i = 0" for i
    by (simp only: x_def bit_x_mode)
  have bg: "bit S_ISGID i \<longleftrightarrow> i = 10" for i
    by (rule bit_sgid)
  have "(t AND NOT (mask 12)) OR ((x AND NOT S_ISGID) AND mask 12) = x AND NOT S_ISGID"
  proof (rule bit_word_eqI)
    fix i
    assume "i < LENGTH(32)"
    then have "bit ((t AND NOT (mask 12)) OR ((x AND NOT S_ISGID) AND mask 12)) i
        \<longleftrightarrow> (bit t i \<and> \<not> i < 12) \<or> (bit x i \<and> i \<noteq> 10 \<and> i < 12)"
      by (auto simp: bit_simps bg)
    moreover from \<open>i < LENGTH(32)\<close> have "bit (x AND NOT S_ISGID) i \<longleftrightarrow> bit x i \<and> i \<noteq> 10"
      by (auto simp: bit_simps bg)
    ultimately show "bit ((t AND NOT (mask 12)) OR ((x AND NOT S_ISGID) AND mask 12)) i
        \<longleftrightarrow> bit (x AND NOT S_ISGID) i"
      by (auto simp: bx)
  qed
  then show ?thesis
    by (simp only: x_def perm_bits_mask)
qed

lemma granted_x_mode:
  "st_mode (with_perm (granted E p (st_mode n OR S_IXUSR OR S_IXGRP OR S_IXOTH)) n)
     = granted E p (st_mode n OR S_IXUSR OR S_IXGRP OR S_IXOTH)"
  by (cases n) (simp_all add: with_perm_def granted_def chmod_x_mode chmod_x_mode_sgid)


subsection \<open>Results of composed commands\<close>

lemma returns_iff: "returns m w \<longleftrightarrow> (\<exists>x. fst (m w) = Inr x)"
  by (cases "fst (m w)") (auto simp: returns_def)

lemma returns_unit: "returns m w \<longleftrightarrow> fst (m w) = Inr ()" for m :: "unit io"
  by (cases "fst (m w)") (auto simp: returns_def)

lemma returnsI: "m w = (Inr x, w') \<Longrightarrow> returns m w"
  by (simp add: returns_def)

lemma not_returnsI: "m w = (Inl e, w') \<Longrightarrow> \<not> returns m w"
  by (simp add: returns_def)

lemma returns_simps [simp]:
  "returns (io_return x) w" "\<not> returns (io_raise e) w"
  "returns (io_then m n) w \<longleftrightarrow> returns m w \<and> returns n (snd (m w))"
  by (auto simp: returns_def io_return_def io_raise_def io_then_def io_bind_def
      split: prod.splits sum.splits)

lemma snd_io_simps [simp]:
  "snd (io_return x w) = w" "snd (io_raise e w) = w"
  "snd (io_then m n w) = (if returns m w then snd (n (snd (m w))) else snd (m w))"
  by (auto simp: returns_def io_return_def io_raise_def io_then_def io_bind_def
      split: prod.splits sum.splits)

lemma can_log_cong:
  "(\<And>q. node_at w' q = node_at w q) \<Longrightarrow> can_log E p w' = can_log E p w"
  by (simp add: can_log_def is_file_def is_dir_def list_ex_iff)

lemma text_of_cong: "node_at w' q = node_at w q \<Longrightarrow> text_of w' q = text_of w q"
  by (simp add: text_of_def content_at_def)

lemma not_prefix_parent: "p \<noteq> [] \<Longrightarrow> \<not> prefix p (parent p)"
proof
  assume p: "p \<noteq> []" and "prefix p (parent p)"
  then have "length p \<le> length (butlast p)"
    unfolding parent_def by (intro prefix_length_le)
  with p show False
    by (cases p rule: rev_cases) simp_all
qed

lemma prefix_parentD: "prefix q (parent p) \<Longrightarrow> prefix q p"
proof -
  assume "prefix q (parent p)"
  moreover have "prefix (parent p) p"
    unfolding parent_def by (rule prefixeq_butlast)
  ultimately show "prefix q p"
    by (rule prefix_order.trans)
qed

lemma mkdir_p_is_dir:
  assumes "returns (mkdir_p E p) w" and "prefix q p"
  shows "is_dir (snd (mkdir_p E p w)) q"
proof -
  from assms have "\<not> is_file w q"
    by (auto simp: mkdir_p_returns list_ex_iff)
  then show ?thesis
    using assms
    by (cases "node_at w q") (auto simp: is_dir_def is_file_def mkdir_p_node split: node.splits)
qed

lemma append_log_returns: "returns (append_log E p t) w \<longleftrightarrow> can_log E p w"
proof (cases "p = []")
  case True
  then show ?thesis
    by (simp add: append_log_def append_text_def open_file_returns can_log_def is_dir_def)
next
  case False
  then have d: "is_dir (snd (mkdir_p E (parent p) w)) p = is_dir w p"
    by (simp add: is_dir_def mkdir_p_node not_prefix_parent)
  have "returns (append_log E p t) w \<longleftrightarrow>
      returns (mkdir_p E (parent p)) w \<and> fault E OpAppend p = None \<and> \<not> is_dir w p"
    using False mkdir_p_is_dir [of E "parent p" w "parent p"]
    by (auto simp: append_log_def append_text_def open_file_returns d)
  then show ?thesis
    by (auto simp: can_log_def mkdir_p_returns)
qed

lemma append_log_text:
  "text_of (snd (append_log E p t w)) p = (if can_log E p w then text_of w p @ t else text_of w p)"
proof (cases "p = []")
  case True
  then show ?thesis
    by (simp add: can_log_def is_dir_def append_log_def append_text_def open_file_returns
        open_file_node mkdir_p_node text_of_def content_at_def)
next
  case False
  let ?w1 = "snd (mkdir_p E (parent p) w)"
  from False have n: "node_at ?w1 p = node_at w p"
    by (simp add: mkdir_p_node not_prefix_parent)
  then have t: "text_of ?w1 p = text_of w p"
    by (rule text_of_cong)
  have r: "returns (append_log E p t) w \<longleftrightarrow> can_log E p w"
    by (rule append_log_returns)
  show ?thesis
  proof (cases "returns (mkdir_p E (parent p)) w")
    case True
    with r have "returns (open_file E OpAppend p (\<lambda>d. d @ t)) ?w1 \<longleftrightarrow> can_log E p w"
      by (simp add: append_log_def append_text_def)
    with True t show ?thesis
      by (simp add: append_log_def append_text_def text_of_def [of _ p] content_at_def
          open_file_node)
  next
    case False
    with r have "\<not> can_log E p w"
      by (simp add: append_log_def)
    with False t show ?thesis
      by (simp add: append_log_def)
  qed
qed

lemma mkdir_p_fields [simp]:
  "stdout (snd (mkdir_p E p w)) = stdout w"
  "stderr (snd (mkdir_p E p w)) = stderr w"
  "ticks (snd (mkdir_p E p w)) = ticks w"
  by (simp_all add: mkdir_p_def mkdir_fold_fields split: option.splits)

lemma open_file_fields [simp]:
  "stdout (snd (open_file E k p f w)) = stdout w"
  "stderr (snd (open_file E k p f w)) = stderr w"
  "ticks (snd (open_file E k p f w)) = ticks w"
  by (simp_all add: open_file_def split: option.splits node.splits)

lemma append_log_fields [simp]:
  "stdout (snd (append_log E p t w)) = stdout w"
  "stderr (snd (append_log E p t w)) = stderr w"
  "ticks (snd (append_log E p t w)) = ticks w"
  by (simp_all add: append_log_def append_text_def)

lemma append_log_dirs:
  "can_log E p w \<Longrightarrow> prefix q (parent p) \<Longrightarrow> is_dir (snd (append_log E p t w)) q"
proof -
  assume c: "can_log E p w" and q: "prefix q (parent p)"
  let ?w1 = "snd (mkdir_p E (parent p) w)"
  from c have m: "returns (mkdir_p E (parent p)) w"
    by (simp add: can_log_def mkdir_p_returns)
  then have "is_dir ?w1 q"
    using q by (rule mkdir_p_is_dir)
  moreover from c have "p \<noteq> []"
    by (auto simp: can_log_def is_dir_def)
  then have "q \<noteq> p"
    using q not_prefix_parent by blast
  ultimately show ?thesis
    using m by (simp add: append_log_def append_text_def is_dir_def open_file_node)
qed

subsection \<open>The two log functions\<close>

lemma io_bind_timestamp:
  "io_bind (timestamp_utc E) f w = f (strftime (clock E (ticks w))) (w\<lparr>ticks := Suc (ticks w)\<rparr>)"
  by (simp add: io_bind_def timestamp_utc_def)

lemma returns_bind_timestamp:
  "returns (io_bind (timestamp_utc E) f) w
     \<longleftrightarrow> returns (f (strftime (clock E (ticks w)))) (w\<lparr>ticks := Suc (ticks w)\<rparr>)"
  by (simp add: returns_def io_bind_timestamp)

lemma snd_bind_timestamp:
  "snd (io_bind (timestamp_utc E) f w)
     = snd (f (strftime (clock E (ticks w))) (w\<lparr>ticks := Suc (ticks w)\<rparr>))"
  by (simp add: io_bind_timestamp)

lemma node_at_ticks [simp]: "node_at (w\<lparr>ticks := n\<rparr>) q = node_at w q"
  by (simp add: node_at_def)

lemma can_log_ticks [simp]: "can_log E p (w\<lparr>ticks := n\<rparr>) = can_log E p w"
  by (rule can_log_cong) simp

lemma text_of_ticks [simp]: "text_of (w\<lparr>ticks := n\<rparr>) q = text_of w q"
  by (rule text_of_cong) simp

lemma returns_print [simp]: "returns (print_stdout s) w" "returns (print_stderr s) w"
  by (simp_all add: returns_def print_stdout_def print_stderr_def)

lemma text_of_print [simp]:
  "text_of (snd (print_stdout s w)) q = text_of w q"
  "text_of (snd (print_stderr s w)) q = text_of w q"
  by (simp_all add: text_of_def content_at_def)

lemma is_dir_print [simp]:
  "is_dir (snd (print_stdout s w)) q = is_dir w q"
  "is_dir (snd (print_stderr s w)) q = is_dir w q"
  by (simp_all add: is_dir_def)

lemma print_fields [simp]:
  "stdout (snd (print_stdout s w)) = stdout w @ s" "stderr (snd (print_stdout s w)) = stderr w"
  "ticks (snd (print_stdout s w)) = ticks w"
  "stdout (snd (print_stderr s w)) = stdout w" "stderr (snd (print_stderr s w)) = stderr w @ s"
  "ticks (snd (print_stderr s w)) = ticks w"
  by (simp_all add: print_stdout_def print_stderr_def)

lemma log_info_returns: "returns (log_info E msg) w \<longleftrightarrow> can_log E (ACTIONS_LOG E) w"
  by (simp add: log_info_def returns_bind_timestamp append_log_returns)

lemma log_error_returns: "returns (log_error E msg) w \<longleftrightarrow> can_log E (ERRORS_LOG E) w"
  by (simp add: log_error_def returns_bind_timestamp append_log_returns)

lemma log_info_effect:
  assumes "can_log E (ACTIONS_LOG E) w"
  shows "text_of (snd (log_info E msg w)) (ACTIONS_LOG E)
           = text_of w (ACTIONS_LOG E) @ info_line (strftime (clock E (ticks w))) msg"
    and "stdout (snd (log_info E msg w)) = stdout w @ info_line (strftime (clock E (ticks w))) msg"
    and "stderr (snd (log_info E msg w)) = stderr w"
    and "ticks (snd (log_info E msg w)) = Suc (ticks w)"
    and "prefix q (root_dir E) \<Longrightarrow> is_dir (snd (log_info E msg w)) q"
  using assms
  by (simp_all add: log_info_def snd_bind_timestamp append_log_returns append_log_text
      append_log_dirs)


lemma digit_in: "digit n \<in> set ''0123456789''"
proof -
  have "n mod 10 < length ''0123456789''"
    by simp
  then show ?thesis
    unfolding digit_def by (rule nth_mem)
qed

lemma strftime_iso: "iso8601_utc (strftime d)"
  using digit_in by (simp add: iso8601_utc_def strftime_def pad2_def pad4_def)

lemma demo_can_log_actions: "can_log demo_env (ACTIONS_LOG demo_env) demo_world"
  by (simp add: can_log_def demo_env_def demo_world_def ACTIONS_LOG_def parent_def
      is_file_def is_dir_def node_at_def)

lemma digit_not_nl: "digit n \<noteq> CHR 0x0A"
  using digit_in [of n] by auto

lemma strftime_length: "length (strftime d) = 20"
  by (simp add: strftime_def pad2_def pad4_def)

lemma strftime_no_nl: "CHR 0x0A \<notin> set (strftime d)"
  by (simp add: strftime_def pad2_def pad4_def digit_not_nl digit_not_nl [symmetric])

lemma run_result: "m w = (r, w') \<Longrightarrow> w' = snd (m w) \<and> r = fst (m w)"
  by simp

lemma unit_result: "returns m w \<Longrightarrow> m w = (Inr (), snd (m w))" for m :: "unit io"
  by (simp add: returns_unit prod_eq_iff)

lemma demo_can_log_errors: "can_log demo_env (ERRORS_LOG demo_env) demo_world"
  by (simp add: can_log_def demo_env_def demo_world_def ERRORS_LOG_def parent_def
      is_file_def is_dir_def node_at_def)

lemma demo_texts:
  "text_of demo_world (ACTIONS_LOG demo_env) = []" "text_of demo_world (ERRORS_LOG demo_env) = []"
  by (simp_all add: text_of_def content_at_def node_at_def demo_world_def demo_env_def
      ACTIONS_LOG_def ERRORS_LOG_def)

lemma demo_clock: "strftime (clock demo_env (ticks demo_world)) = ''2024-05-17T09:03:00Z''"
  by (simp add: strftime_def demo_env_def demo_world_def pad2_def pad4_def digit_def)

subsection \<open>What the components do when they return\<close>

lemma handler_raises: "io_then m (io_raise e) w \<noteq> (Inr x, w')"
  by (auto simp: io_then_def io_bind_def io_raise_def split: prod.splits sum.splits)

lemma io_then_InrD:
  "io_then m n w = (Inr y, w'') \<Longrightarrow> \<exists>x w'. m w = (Inr x, w') \<and> n w' = (Inr y, w'')"
  by (cases "m w"; cases "fst (m w)") (simp_all add: io_then_def io_bind_def)

lemma io_bind_InrD:
  "io_bind m f w = (Inr y, w'') \<Longrightarrow> \<exists>x w'. m w = (Inr x, w') \<and> f x w' = (Inr y, w'')"
  by (cases "m w"; cases "fst (m w)") (simp_all add: io_bind_def)

lemma io_try_raising_InrD:
  "io_try m (\<lambda>e. io_then (h e) (io_raise e)) w = (Inr y, w') \<Longrightarrow> m w = (Inr y, w')"
  by (cases "m w"; cases "fst (m w)") (simp_all add: io_try_def handler_raises)

lemma safe_write_InrD:
  assumes "safe_write E p c w = (Inr (), w')"
  shows "\<exists>w1 w2. mkdir_p E (parent p) w = (Inr (), w1)
    \<and> write_text E p (lstrip_nl (dedent c)) w1 = (Inr (), w2)
    \<and> log_info E (''Wrote file: '' @ str_path p) w2 = (Inr (), w')"
proof -
  from assms
  have "io_then (mkdir_p E (parent p))
            (io_then (write_text E p (lstrip_nl (dedent c)))
                     (log_info E (''Wrote file: '' @ str_path p))) w = (Inr (), w')"
    unfolding safe_write_def by (rule io_try_raising_InrD)
  from io_then_InrD [OF this] obtain x1 w1 where 1: "mkdir_p E (parent p) w = (Inr x1, w1)"
    and b2: "io_then (write_text E p (lstrip_nl (dedent c)))
                     (log_info E (''Wrote file: '' @ str_path p)) w1 = (Inr (), w')"
    by blast
  from io_then_InrD [OF b2] obtain x2 w2
    where 2: "write_text E p (lstrip_nl (dedent c)) w1 = (Inr x2, w2)"
    and 3: "log_info E (''Wrote file: '' @ str_path p) w2 = (Inr (), w')"
    by blast
  from 1 2 3 show ?thesis
    by simp
qed

lemma write_text_content:
  assumes "write_text E p t w = (Inr (), w')"
  shows "content_at w' p = Some t"
proof -
  from assms have "returns (write_text E p t) w" and "w' = snd (write_text E p t w)"
    by (simp_all add: returnsI)
  then show ?thesis
    by (simp add: write_text_def content_at_def open_file_node)
qed

lemma safe_write_content:
  assumes "safe_write E p c w = (Inr (), w')" and "p \<noteq> ACTIONS_LOG E"
  shows "content_at w' p = Some (lstrip_nl (dedent c))"
proof -
  let ?P = "\<lambda>n. (case n of Some (File m d) \<Rightarrow> Some d | _ \<Rightarrow> None) = Some (lstrip_nl (dedent c))"
  from safe_write_InrD [OF assms(1)]
  obtain w1 w2 where "write_text E p (lstrip_nl (dedent c)) w1 = (Inr (), w2)"
    and l: "log_info E (''Wrote file: '' @ str_path p) w2 = (Inr (), w')"
    by blast
  then have "content_at w2 p = Some (lstrip_nl (dedent c))"
    by (intro write_text_content)
  then have i: "node_inv p ?P w2"
    by (simp add: node_inv_def content_at_def)
  have "preserves (node_inv p ?P) (log_info E (''Wrote file: '' @ str_path p))"
    using assms(2) by (intro preserves_log_info) (simp add: log_closed_def dir_closed_def)
  then have "node_inv p ?P w'"
    using i l by (rule preservesD)
  then show ?thesis
    by (simp add: node_inv_def content_at_def)
qed

lemma make_executable_InrD:
  assumes "make_executable E p w = (Inr (), w')"
  shows "\<exists>n w1. node_at w p = Some n
    \<and> chmod E p (st_mode n OR S_IXUSR OR S_IXGRP OR S_IXOTH) w = (Inr (), w1)
    \<and> log_info E (''Marked executable: '' @ str_path p) w1 = (Inr (), w')"
proof -
  from assms
  have "io_bind (stat_mode E p) (\<lambda>mode.
             io_then (chmod E p (mode OR S_IXUSR OR S_IXGRP OR S_IXOTH))
                     (log_info E (''Marked executable: '' @ str_path p))) w = (Inr (), w')"
    unfolding make_executable_def by (rule io_try_raising_InrD)
  from io_bind_InrD [OF this] obtain m w0 where s: "stat_mode E p w = (Inr m, w0)"
    and b2: "io_then (chmod E p (m OR S_IXUSR OR S_IXGRP OR S_IXOTH))
                     (log_info E (''Marked executable: '' @ str_path p)) w0 = (Inr (), w')"
    by blast
  from s have "\<exists>n. node_at w p = Some n \<and> m = st_mode n \<and> w0 = w"
    by (cases "fault E OpStat p"; cases "node_at w p") (simp_all add: stat_mode_def)
  then obtain n where n: "node_at w p = Some n" and m: "m = st_mode n" and w0: "w0 = w"
    by blast
  from io_then_InrD [OF b2] obtain x w1
    where c: "chmod E p (m OR S_IXUSR OR S_IXGRP OR S_IXOTH) w0 = (Inr x, w1)"
    and l: "log_info E (''Marked executable: '' @ str_path p) w1 = (Inr (), w')"
    by blast
  from n c l show ?thesis
    unfolding m w0 by simp
qed

lemma chmod_Inr:
  assumes "chmod E p m w = (Inr (), w')" and "node_at w p = Some n"
  shows "node_at w' p = Some (with_perm (granted E p m) n)"
proof -
  from assms(1) have "returns (chmod E p m) w" and "w' = snd (chmod E p m w)"
    by (simp_all add: returnsI)
  with assms(2) show ?thesis
    by (simp add: chmod_node)
qed

lemma make_executable_mode:
  assumes "make_executable E p w = (Inr (), w')" and "node_at w p = Some n"
  shows "map_option st_mode (node_at w' p)
    = Some (granted E p (st_mode n OR S_IXUSR OR S_IXGRP OR S_IXOTH))"
proof -
  let ?m = "st_mode n OR S_IXUSR OR S_IXGRP OR S_IXOTH"
  let ?P = "\<lambda>x. map_option st_mode x = Some (granted E p ?m)"
  from make_executable_InrD [OF assms(1)] obtain n' w1 where n': "node_at w p = Some n'"
    and c': "chmod E p (st_mode n' OR S_IXUSR OR S_IXGRP OR S_IXOTH) w = (Inr (), w1)"
    and l: "log_info E (''Marked executable: '' @ str_path p) w1 = (Inr (), w')"
    by blast
  from n' assms(2) have "n' = n"
    by simp
  with c' have c: "chmod E p ?m w = (Inr (), w1)"
    by simp
  from c assms(2) have "node_at w1 p = Some (with_perm (granted E p ?m) n)"
    by (rule chmod_Inr)
  then have i: "node_inv p ?P w1"
    by (simp add: node_inv_def granted_x_mode)
  have "preserves (node_inv p ?P) (log_info E (''Marked executable: '' @ str_path p))"
    by (intro preserves_log_info) (simp add: log_closed_def dir_closed_def file_closed_def)
  then have "node_inv p ?P w'"
    using i l by (rule preservesD)
  then show ?thesis
    by (simp add: node_inv_def)
qed

subsection \<open>The top-level handler, and a run that fails\<close>

lemma denied_run:
  "main denied_env demo_body demo_world
     = (Inl (os_error ''[Errno 13] Permission denied''
               [''srv'', ''gen'', ''modular_cpu_ai_stack_v0_1_6'', ''scripts'']),
        denied_world)"
  by code_simp

lemma main_except_result:
  assumes "can_log E (ERRORS_LOG E) w"
  shows "main_except E e w
    = (Inl e, snd (log_error E (''Unhandled exception during stack generation:\<newline>''
                               @ format_exc E e) w))"
proof -
  from assms have "returns (log_error E (''Unhandled exception during stack generation:\<newline>''
                               @ format_exc E e)) w"
    by (simp add: log_error_returns)
  then have "log_error E (''Unhandled exception during stack generation:\<newline>''
       @ format_exc E e) w
     = (Inr (), snd (log_error E (''Unhandled exception during stack generation:\<newline>''
                               @ format_exc E e) w))"
    by (rule unit_result)
  then show ?thesis
    by (simp add: main_except_def io_then_Inr io_raise_def)
qed

subsection \<open>The archive\<close>

lemma remdups_snoc_new: "k \<notin> set xs \<Longrightarrow> remdups (xs @ [k]) = remdups xs @ [k]"
  by (induction xs) auto

lemma filter_paths_set_node:
  assumes "\<not> P p"
  shows "filter P (paths (set_node p n w)) = filter P (paths w)"
proof (cases "p \<in> set (map fst (fs w))")
  case True
  then show ?thesis
    by (simp add: paths_def set_node_def update_keys)
next
  case False
  then have "remdups (map fst (fs w) @ [p]) = remdups (map fst (fs w)) @ [p]"
    by (rule remdups_snoc_new)
  with False assms show ?thesis
    by (simp add: paths_def set_node_def update_keys)
qed

lemma is_file_set_node: "q \<noteq> p \<Longrightarrow> is_file (set_node p n w) q = is_file w q"
  by (simp add: is_file_def)

lemma text_of_set_node: "q \<noteq> p \<Longrightarrow> text_of (set_node p n w) q = text_of w q"
  by (simp add: text_of_def content_at_def)

lemma set_strict_prefixes: "set (butlast (prefixes p)) = {d. strict_prefix d p}"
proof -
  have "distinct (butlast (prefixes p) @ [p])"
    by (simp only: prefixes_snoc_self [symmetric] distinct_prefixes)
  then have "p \<notin> set (butlast (prefixes p))"
    by simp
  moreover have "set (butlast (prefixes p)) \<union> {p} = {d. prefix d p}"
  proof -
    have "set (butlast (prefixes p) @ [p]) = {d. prefix d p}"
      by (simp only: prefixes_snoc_self [symmetric]) auto
    then show ?thesis
      by simp
  qed
  ultimately show ?thesis
    by (auto simp: strict_prefix_def)
qed

lemma reached_iff:
  "reached E w sr p \<longleftrightarrow> (\<forall>d. prefix sr d \<and> strict_prefix d p \<longrightarrow> listable E w d)"
  by (auto simp: reached_def list_all_iff set_strict_prefixes)

lemma is_dir_set_node: "q \<noteq> p \<Longrightarrow> is_dir (set_node p n w) q = is_dir w q"
  by (simp add: is_dir_def)

lemma reached_set_node:
  assumes "\<not> prefix sr p"
  shows "reached E (set_node p n w) sr q = reached E w sr q"
proof -
  have "listable E (set_node p n w) d = listable E w d" if "prefix sr d" for d
  proof -
    from that assms have "d \<noteq> p"
      by auto
    then show ?thesis
      by (simp add: listable_def is_dir_set_node)
  qed
  then show ?thesis
    by (auto simp: reached_iff)
qed

lemma walk_files_set_node:
  assumes "\<not> prefix sr p"
  shows "walk_files E (set_node p n w) sr = walk_files E w sr"
proof -
  let ?Q = "\<lambda>v q. strict_prefix sr q \<and> is_file v q \<and> reached E v sr q"
  have "filter (?Q (set_node p n w)) (paths (set_node p n w))
      = filter (?Q (set_node p n w)) (paths w)"
    using assms by (intro filter_paths_set_node) (simp add: strict_prefix_def)
  also have "\<dots> = filter (?Q w) (paths w)"
  proof (intro filter_cong refl)
    fix q
    show "?Q (set_node p n w) q = ?Q w q"
    proof (cases "strict_prefix sr q")
      case True
      with assms have "q \<noteq> p"
        by (auto simp: strict_prefix_def)
      then show ?thesis
        by (simp add: is_file_set_node reached_set_node [OF assms])
    next
      case False
      then show ?thesis
        by simp
    qed
  qed
  finally show ?thesis
    by (simp add: walk_files_def)
qed

lemma set_walk_files:
  "set (walk_files E w sr) = {p. strict_prefix sr p \<and> is_file w p \<and> reached E w sr p}"
  by (auto simp: walk_files_def set_paths is_file_def split: option.splits)

lemma distinct_walk_files [simp]: "distinct (walk_files E w sr)"
  by (simp add: walk_files_def)

lemma read_bytes_Inr:
  "fst (read_bytes E p w) = Inr d \<Longrightarrow> is_file w p \<and> text_of w p = d"
  by (cases "fault E OpRead p"; cases "node_at w p")
    (auto simp: read_bytes_def is_file_def text_of_def content_at_def split: node.splits)

lemma zip_write_all_Inr:
  "zip_write_all E ps acc w = (Inr (), zf) \<Longrightarrow>
     zf = acc @ map (\<lambda>full. (drop (length (root_dir E)) full, text_of w full)) ps"
proof (induction ps arbitrary: acc)
  case Nil
  then show ?case by simp
next
  case (Cons p ps)
  from Cons.prems obtain rel where rel: "relative_to p (root_dir E) = Inr rel"
    by (cases "relative_to p (root_dir E)") simp_all
  then have r: "rel = drop (length (root_dir E)) p"
    by (auto simp: relative_to_def split: if_splits)
  from Cons.prems rel obtain d where d: "fst (read_bytes E p w) = Inr d"
    by (cases "fst (read_bytes E p w)") simp_all
  with Cons.prems rel have "zip_write_all E ps (acc @ [(rel, d)]) w = (Inr (), zf)"
    by simp
  then have "zf = (acc @ [(rel, d)]) @ map (\<lambda>full. (drop (length (root_dir E)) full, text_of w full)) ps"
    by (rule Cons.IH)
  with r read_bytes_Inr [OF d] show ?case
    by simp
qed

lemma write_text_Inr:
  assumes "write_text E p t w = (Inr (), w')"
  shows "w' = set_node p (File (case node_at w p of Some n \<Rightarrow> st_mode n | None \<Rightarrow> new_file_mode E) t) w"
  using assms
  by (cases "fault E OpWrite p"; cases "node_at w p")
    (auto simp: write_text_def open_file_def split: if_splits node.splits)

lemma zip_file_Inr:
  assumes "zip_file E zp sr w = (Inr (), w')" and "\<not> prefix sr zp"
  shows "content_at w' zp = Some (zip_bytes E (ticks w) (archive_entries E w sr))"
proof -
  from io_then_InrD [OF assms(1) [unfolded zip_file_def]]
  obtain x w1 where o: "write_text E zp [] w = (Inr x, w1)"
    and z: "(case zip_write_all E (walk_files E w1 sr) [] w1 of
               (r, zf) \<Rightarrow> (r, set_node zp
                                 (File (case node_at w1 zp of Some n \<Rightarrow> st_mode n
                                        | None \<Rightarrow> new_file_mode E) (zip_bytes E (ticks w1) zf)) w1))
            = (Inr (), w')"
    by blast
  from o have w1: "w1 = set_node zp (File (case node_at w zp of Some n \<Rightarrow> st_mode n
                                           | None \<Rightarrow> new_file_mode E) []) w"
    by (intro write_text_Inr) simp
  obtain r zf where a: "zip_write_all E (walk_files E w1 sr) [] w1 = (r, zf)"
    by (cases "zip_write_all E (walk_files E w1 sr) [] w1")
  with z have r: "r = Inr ()" and w': "w' = set_node zp
         (File (case node_at w1 zp of Some n \<Rightarrow> st_mode n | None \<Rightarrow> new_file_mode E)
               (zip_bytes E (ticks w1) zf)) w1"
    by simp_all
  from a r have "zf = [] @ map (\<lambda>full. (drop (length (root_dir E)) full, text_of w1 full))
                           (walk_files E w1 sr)"
    by (intro zip_write_all_Inr) simp
  also have "walk_files E w1 sr = walk_files E w sr"
    unfolding w1 using assms(2) by (rule walk_files_set_node)
  also have "map (\<lambda>full. (drop (length (root_dir E)) full, text_of w1 full)) (walk_files E w sr)
      = map (\<lambda>full. (drop (length (root_dir E)) full, text_of w full)) (walk_files E w sr)"
    unfolding w1 using assms(2)
    by (intro map_cong refl) (auto simp: set_walk_files text_of_set_node strict_prefix_def)
  finally have "zf = archive_entries E w sr"
    by (simp add: archive_entries_def)
  then show ?thesis
    by (simp add: w' w1 content_at_def)
qed

lemma create_zip_InrD:
  assumes "create_zip E sr w = (Inr zp, w')"
  shows "zp = zip_path_of E sr \<and> (\<exists>w1. zip_file E (zip_path_of E sr) sr w = (Inr (), w1)
    \<and> log_info E (''Created ZIP archive: '' @ str_path (zip_path_of E sr)) w1 = (Inr (), w'))"
proof -
  from assms
  have "io_then (zip_file E (zip_path_of E sr) sr)
       (io_then (log_info E (''Created ZIP archive: '' @ str_path (zip_path_of E sr)))
                (io_return (zip_path_of E sr))) w = (Inr zp, w')"
    unfolding create_zip_def by (rule io_try_raising_InrD)
  from io_then_InrD [OF this] obtain x1 w1
    where 1: "zip_file E (zip_path_of E sr) sr w = (Inr x1, w1)"
    and b: "io_then (log_info E (''Created ZIP archive: '' @ str_path (zip_path_of E sr)))
                (io_return (zip_path_of E sr)) w1 = (Inr zp, w')"
    by blast
  from io_then_InrD [OF b] obtain x2 w2
    where 2: "log_info E (''Created ZIP archive: '' @ str_path (zip_path_of E sr)) w1 = (Inr x2, w2)"
    and 3: "io_return (zip_path_of E sr) w2 = (Inr zp, w')"
    by blast
  from 1 2 3 show ?thesis
    by (simp add: io_return_def)
qed

lemma zip_name_not_log:
  "n @ ''.zip'' \<noteq> ''create_stack_actions.log''" "n @ ''.zip'' \<noteq> ''create_stack_errors.log''"
proof -
  have "rev (n @ ''.zip'') \<noteq> rev ''create_stack_actions.log''"
    by simp
  then show "n @ ''.zip'' \<noteq> ''create_stack_actions.log''"
    by (metis (no_types))
  have "rev (n @ ''.zip'') \<noteq> rev ''create_stack_errors.log''"
    by simp
  then show "n @ ''.zip'' \<noteq> ''create_stack_errors.log''"
    by (metis (no_types))
qed

lemma zip_path_not_log:
  "zip_path_of E sr \<noteq> ACTIONS_LOG E" "zip_path_of E sr \<noteq> ERRORS_LOG E"
  by (simp_all add: zip_path_of_def ACTIONS_LOG_def ERRORS_LOG_def zip_name_not_log)

lemma zip_path_not_under: "\<not> prefix (root_dir E @ [n]) (zip_path_of E (root_dir E @ [n]))"
  by (simp add: zip_path_of_def path_name_def)

lemma create_zip_content:
  assumes "create_zip E (root_dir E @ [n]) w = (Inr zp, w')"
  shows "zp = root_dir E @ [n @ ''.zip'']"
    and "content_at w' zp = Some (zip_bytes E (ticks w) (archive_entries E w (root_dir E @ [n])))"
proof -
  let ?sr = "root_dir E @ [n]"
  let ?c = "Some (zip_bytes E (ticks w) (archive_entries E w ?sr))"
  let ?P = "\<lambda>x. (case x of Some (File m d) \<Rightarrow> Some d | _ \<Rightarrow> None) = ?c"
  from create_zip_InrD [OF assms] obtain w1 where zp: "zp = zip_path_of E ?sr"
    and z: "zip_file E (zip_path_of E ?sr) ?sr w = (Inr (), w1)"
    and l: "log_info E (''Created ZIP archive: '' @ str_path (zip_path_of E ?sr)) w1 = (Inr (), w')"
    by blast
  from zp show "zp = root_dir E @ [n @ ''.zip'']"
    by (simp add: zip_path_of_def path_name_def)
  from z have "content_at w1 (zip_path_of E ?sr) = ?c"
    by (rule zip_file_Inr) (rule zip_path_not_under)
  then have i: "node_inv (zip_path_of E ?sr) ?P w1"
    by (simp add: node_inv_def content_at_def)
  have "preserves (node_inv (zip_path_of E ?sr) ?P)
          (log_info E (''Created ZIP archive: '' @ str_path (zip_path_of E ?sr)))"
    by (intro preserves_log_info) (simp add: log_closed_def dir_closed_def zip_path_not_log)
  then have "node_inv (zip_path_of E ?sr) ?P w'"
    using i l by (rule preservesD)
  then show "content_at w' zp = ?c"
    by (simp add: node_inv_def content_at_def zp)
qed

lemma strict_prefix_child:
  "strict_prefix (r @ [n]) p \<longleftrightarrow> (\<exists>rest. rest \<noteq> [] \<and> p = r @ n # rest)"
  by (auto simp: strict_prefix_def prefix_def)

lemma is_file_content: "is_file w p \<and> text_of w p = d \<longleftrightarrow> content_at w p = Some d"
  by (auto simp: is_file_def text_of_def content_at_def split: option.splits node.splits)

lemma set_archive_entries:
  "set (archive_entries E w (root_dir E @ [n]))
     = {(n # rest, d) | rest d. rest \<noteq> [] \<and> content_at w (root_dir E @ n # rest) = Some d
          \<and> reached E w (root_dir E @ [n]) (root_dir E @ n # rest)}"
proof -
  let ?sr = "root_dir E @ [n]"
  let ?ok = "\<lambda>rest. rest \<noteq> [] \<and> is_file w (root_dir E @ n # rest)
                 \<and> reached E w ?sr (root_dir E @ n # rest)"
  have "set (archive_entries E w ?sr)
      = (\<lambda>p. (drop (length (root_dir E)) p, text_of w p))
          ` {p. strict_prefix ?sr p \<and> is_file w p \<and> reached E w ?sr p}"
    by (simp add: archive_entries_def set_walk_files)
  also have "{p. strict_prefix ?sr p \<and> is_file w p \<and> reached E w ?sr p}
      = (\<lambda>rest. root_dir E @ n # rest) ` {rest. ?ok rest}"
    by (auto simp: strict_prefix_child)
  also have "(\<lambda>p. (drop (length (root_dir E)) p, text_of w p))
          ` (\<lambda>rest. root_dir E @ n # rest) ` {rest. ?ok rest}
      = (\<lambda>rest. (n # rest, text_of w (root_dir E @ n # rest))) ` {rest. ?ok rest}"
    by (simp add: image_image)
  also have "\<dots> = {(n # rest, d) | rest d. rest \<noteq> []
                       \<and> content_at w (root_dir E @ n # rest) = Some d
                       \<and> reached E w ?sr (root_dir E @ n # rest)}"
    by (auto simp: is_file_content [symmetric])
  finally show ?thesis .
qed




lemma packed_zip_run:
  "fst (create_zip demo_env (root_dir demo_env @ [''modular_cpu_ai_stack_v0_1_6'']) packed_world)
     = Inr [''srv'', ''gen'', ''modular_cpu_ai_stack_v0_1_6.zip'']"
  by code_simp


lemma packed_main_zip_run:
  "fst (create_zip demo_env (stack_root_of demo_env) packed_world)
     = Inr [''srv'', ''gen'', ''modular_cpu_ai_stack_v0_1_6.zip'']"
  by (simp add: stack_root_of_def STACK_DIR_NAME_def packed_zip_run)

lemma packed_walk:
  "walk_files demo_env packed_world (stack_root_of demo_env)
     = [[''srv'', ''gen'', ''modular_cpu_ai_stack_v0_1_6'', ''README.md'']]"
  by code_simp

lemma preserves_zip_file:
  assumes "q \<noteq> zp \<or> (\<forall>t. file_closed E (\<lambda>_. t) P)"
  shows "preserves (node_inv q P) (zip_file E zp sr)"
proof (cases "q = zp")
  case False
  then show ?thesis
    by (simp add: preserves_def node_inv_def zip_file_node)
next
  case True
  with assms have c: "file_closed E (\<lambda>_. t) P" for t
    by simp
  have "P (node_at (snd (zip_file E zp sr w)) zp)" if "P (node_at w zp)" for w
  proof (cases "returns (write_text E zp []) w")
    case False
    then have "snd (zip_file E zp sr w) = snd (write_text E zp [] w)"
      by (simp add: zip_file_def)
    with False that show ?thesis
      by (simp add: write_text_def open_file_node)
  next
    case r: True
    let ?w1 = "snd (write_text E zp [] w)"
    obtain m where n1: "node_at ?w1 zp = Some (File m [])"
      and m: "m = (case node_at w zp of Some n \<Rightarrow> st_mode n | None \<Rightarrow> new_file_mode E)"
      using r by (simp add: write_text_def open_file_node)
    from r have "\<not> is_dir w zp"
      by (simp add: write_text_def open_file_returns)
    with that m c have "P (Some (File m t))" for t
      by (cases "node_at w zp")
        (auto simp: file_closed_def is_dir_def split: node.splits)
    moreover have "node_at (snd (zip_file E zp sr w)) zp
        = Some (File m (zip_bytes E (ticks ?w1)
                         (snd (zip_write_all E (walk_files E ?w1 sr) [] ?w1))))"
      using r n1 by (simp add: zip_file_def split: prod.splits)
    ultimately show ?thesis
      by simp
  qed
  then show ?thesis
    by (simp add: preserves_def node_inv_def True)
qed

lemma preserves_create_zip:
  assumes "logs_closed E q P"
    and "q \<noteq> zip_path_of E sr \<or> (\<forall>t. file_closed E (\<lambda>_. t) P)"
  shows "preserves (node_inv q P) (create_zip E sr)"
  unfolding create_zip_def using assms
  by (intro preserves_try preserves_then preserves_zip_file preserves_log_info
      preserves_log_error preserves_raise preserves_return) (auto simp: logs_closed_def)

subsection \<open>What a run of \<open>main\<close> leaves as it is\<close>

lemma parent_snoc [simp]: "parent (p @ [n]) = p"
  by (simp add: parent_def)

lemma parent_template:
  "rel \<in> set template_paths \<Longrightarrow> parent (sr @ rel) = sr @ [''scripts''] \<or> parent (sr @ rel) = sr"
  by (auto simp: template_paths_def parent_def butlast_append)

lemma prefix_snocD: "prefix q p \<Longrightarrow> prefix q (p @ [n])"
  by (simp add: prefix_def) (metis append.assoc)

lemma preserves_create_stack_files:
  assumes "logs_closed E q P"
    and "dir_closed E P \<or> q = [] \<or> \<not> prefix q (sr @ [''scripts''])"
    and "(\<forall>t. file_closed E (\<lambda>_. t) P) \<or> q \<notin> (\<lambda>rel. sr @ rel) ` set template_paths"
  shows "preserves (node_inv q P) (create_stack_files E body sr)"
  unfolding create_stack_files_def
proof (rule preserves_seq)
  fix m
  assume "m \<in> set (map (\<lambda>rel. safe_write E (sr @ rel) (body rel)) template_paths)"
  then obtain rel where rel: "rel \<in> set template_paths"
    and m: "m = safe_write E (sr @ rel) (body rel)"
    by auto
  from parent_template [OF rel, of sr] assms(2)
  have "\<not> prefix q (parent (sr @ rel)) \<or> q = [] \<or> dir_closed E P"
    by (auto dest: prefix_snocD)
  moreover from rel assms(3) have "q \<noteq> sr @ rel \<or> (\<forall>t. file_closed E (\<lambda>_. t) P)"
    by auto
  ultimately show "preserves (node_inv q P) m"
    unfolding m using assms(1) by (intro preserves_safe_write)
qed

lemma preserves_glob_loop:
  assumes "\<And>ps. \<forall>p \<in> set ps. p \<noteq> [] \<and> parent p = d \<and> suffix ''.sh'' (path_name p)
             \<Longrightarrow> preserves I (io_seq (map f ps))"
  shows "preserves I (io_bind (glob_sh E d) (\<lambda>shs. io_seq (map f shs)))"
proof -
  have "I (snd (io_bind (glob_sh E d) (\<lambda>shs. io_seq (map f shs)) w))" if "I w" for w
  proof -
    let ?ps = "projr (fst (glob_sh E d w))"
    have "preserves I (io_seq (map f ?ps))"
      by (rule assms) (simp add: glob_sh_set)
    with that have "I (snd (io_seq (map f ?ps) w))"
      by (simp add: preserves_def)
    then show ?thesis
      by (simp only: io_bind_glob)
  qed
  then show ?thesis
    by (simp add: preserves_def)
qed

lemma preserves_mark_scripts:
  assumes "logs_closed E q P"
    and "x_closed P \<or> \<not> (parent q = d \<and> suffix ''.sh'' (path_name q))"
  shows "preserves (node_inv q P) (io_bind (glob_sh E d) (\<lambda>shs. io_seq (map (make_executable E) shs)))"
proof (rule preserves_glob_loop)
  fix ps
  assume ps: "\<forall>p \<in> set ps. p \<noteq> [] \<and> parent p = d \<and> suffix ''.sh'' (path_name p)"
  show "preserves (node_inv q P) (io_seq (map (make_executable E) ps))"
  proof (rule preserves_seq)
    fix m
    assume "m \<in> set (map (make_executable E) ps)"
    then obtain p where p: "p \<in> set ps" and m: "m = make_executable E p"
      by auto
    from p ps assms(2) have "q \<noteq> p \<or> x_closed P"
      by auto
    with assms(1) show "preserves (node_inv q P) m"
      unfolding m by (intro preserves_make_executable)
  qed
qed

lemma preserves_main_try:
  assumes "logs_closed E q P"
    and "dir_closed E P \<or> q = []
         \<or> (\<not> prefix q (sr @ [''scripts'']) \<and> \<not> prefix q (sr @ [''logs'']))"
    and "(\<forall>t. file_closed E (\<lambda>_. t) P)
         \<or> (q \<notin> (\<lambda>rel. sr @ rel) ` set template_paths \<and> q \<noteq> zip_path_of E sr)"
    and "x_closed P \<or> (\<not> (parent q = sr @ [''scripts''] \<and> suffix ''.sh'' (path_name q))
                        \<and> q \<noteq> sr @ [''install.sh''])"
  shows "preserves (node_inv q P) (main_try E body sr)"
  unfolding main_try_def
proof (intro preserves_then)
  have l: "preserves (node_inv q P) (log_info E m)" for m
    using assms(1) by (intro preserves_log_info) (simp add: logs_closed_def)
  have z: "preserves (node_inv q P) (create_zip E sr)"
    using assms by (intro preserves_create_zip) auto
  show "preserves (node_inv q P)
     (io_bind (create_zip E sr) (\<lambda>zip_path.
       io_then (log_info E (''Stack files generation complete for '' @ VERSION @ ''.''))
      (io_then (log_info E (''Root directory: '' @ str_path sr))
      (io_then (log_info E (''ZIP archive: '' @ str_path zip_path))
               (print_stdout ([CHR 0x0A] @ ''Done.'' @ [CHR 0x0A] @ ''Root: '' @ str_path sr
                  @ [CHR 0x0A] @ ''ZIP:  '' @ str_path zip_path @ [CHR 0x0A, CHR 0x0A]))))))"
    by (intro preserves_bind preserves_then preserves_print l z)
  show "preserves (node_inv q P) (create_stack_files E body sr)"
    using assms by (intro preserves_create_stack_files) auto
  show "preserves (node_inv q P)
     (io_bind (glob_sh E (sr @ [''scripts''])) (\<lambda>shs. io_seq (map (make_executable E) shs)))"
    using assms by (intro preserves_mark_scripts) auto
  show "preserves (node_inv q P) (make_executable E (sr @ [''install.sh'']))"
    using assms by (intro preserves_make_executable) auto
  show "preserves (node_inv q P) (mkdir_p E (sr @ [''logs'']))"
    using assms by (intro preserves_mkdir_p) auto
qed

lemma preserves_path_exists [intro!]: "preserves I (path_exists E p)"
  by (rule preserves_world_id) simp

lemma preserves_main_except:
  "logs_closed E q P \<Longrightarrow> preserves (node_inv q P) (main_except E e)"
  unfolding main_except_def
  by (intro preserves_then preserves_log_error preserves_raise) (simp add: logs_closed_def)

lemma preserves_main:
  assumes "logs_closed E q P"
    and "dir_closed E P \<or> q = []
         \<or> (\<not> prefix q (stack_root_of E @ [''scripts''])
            \<and> \<not> prefix q (stack_root_of E @ [''logs'']))"
    and "(\<forall>t. file_closed E (\<lambda>_. t) P)
         \<or> (q \<notin> (\<lambda>rel. stack_root_of E @ rel) ` set template_paths
            \<and> q \<noteq> zip_path_of E (stack_root_of E))"
    and "x_closed P
         \<or> (\<not> (parent q = stack_root_of E @ [''scripts''] \<and> suffix ''.sh'' (path_name q))
            \<and> q \<noteq> stack_root_of E @ [''install.sh''])"
  shows "preserves (node_inv q P) (main E body)"
proof -
  have l: "preserves (node_inv q P) (log_info E m)" for m
    using assms(1) by (intro preserves_log_info) (simp add: logs_closed_def)
  have t: "preserves (node_inv q P) (main_try E body (stack_root_of E))"
    using assms by (rule preserves_main_try)
  have x: "preserves (node_inv q P) (main_except E e)" for e
    using assms(1) by (rule preserves_main_except)
  have d: "preserves (node_inv q P) (mkdir_p E (stack_root_of E))"
    using assms(2) by (intro preserves_mkdir_p) (auto dest: prefix_snocD)
  show ?thesis
    unfolding main_def
    by (intro preserves_then preserves_bind preserves_try preserves_if preserves_path_exists
        l t x d)
qed

subsection \<open>Kinds of nodes that a run does not change\<close>

lemma not_file_closed [simp]:
  "dir_closed E not_file" "x_closed not_file"
  by (auto simp: dir_closed_def x_closed_def not_file_def with_perm_def split: node.splits)

lemma not_dir_closed [simp]:
  "file_closed E f not_dir" "x_closed not_dir"
  by (auto simp: file_closed_def x_closed_def not_dir_def with_perm_def split: node.splits)

lemma is_file_not_file: "is_file w q \<longleftrightarrow> \<not> node_inv q not_file w"
  by (simp add: is_file_def node_inv_def not_file_def split: option.splits node.splits)

lemma is_dir_not_dir: "q \<noteq> [] \<Longrightarrow> is_dir w q \<longleftrightarrow> \<not> node_inv q not_dir w"
  by (simp add: is_dir_def node_inv_def not_dir_def split: option.splits node.splits)

lemma prefix_self_append [simp]: "prefix (xs @ ys) xs \<longleftrightarrow> ys = []"
  by (auto simp: prefix_def)

lemma prefix_two:
  "prefix q (r @ [a, b]) \<longleftrightarrow> prefix q r \<or> q = r @ [a] \<or> q = r @ [a, b]"
proof -
  have "r @ [a, b] = (r @ [a]) @ [b]"
    by simp
  then show ?thesis
    by (simp only: prefix_snoc) auto
qed

lemma prefix_one: "prefix q (r @ [a]) \<longleftrightarrow> prefix q r \<or> q = r @ [a]"
  by (simp only: prefix_snoc) auto

lemma log_names [simp]:
  "STACK_DIR_NAME \<noteq> ''create_stack_actions.log''" "STACK_DIR_NAME \<noteq> ''create_stack_errors.log''"
  "''create_stack_actions.log'' \<noteq> STACK_DIR_NAME" "''create_stack_errors.log'' \<noteq> STACK_DIR_NAME"
  by (simp_all add: STACK_DIR_NAME_def)

lemma template_nonempty: "rel \<in> set template_paths \<Longrightarrow> rel \<noteq> [] \<and> rel \<noteq> [''scripts''] \<and> rel \<noteq> [''logs'']"
  by (auto simp: template_paths_def)

lemma template_head:
  "rel \<in> set template_paths \<Longrightarrow> \<exists>a rest. rel = a # rest"
  by (cases rel) (auto dest: template_nonempty)

lemma can_log_alt:
  "l \<noteq> [] \<Longrightarrow> can_log E l w \<longleftrightarrow>
     fault E OpMkdir (parent l) = None \<and> fault E OpAppend l = None \<and>
     (\<forall>q. prefix q (parent l) \<longrightarrow> node_inv q not_file w) \<and> node_inv l not_dir w"
  by (auto simp: can_log_def list_ex_iff is_file_not_file is_dir_not_dir)

lemma log_nonempty [simp]: "ACTIONS_LOG E \<noteq> []" "ERRORS_LOG E \<noteq> []"
  by (simp_all add: ACTIONS_LOG_def ERRORS_LOG_def)

lemma settled_can_log:
  "fault_free E \<Longrightarrow> settled E w \<Longrightarrow> can_log E (ACTIONS_LOG E) w"
  by (simp add: can_log_alt settled_def fault_free_def stack_root_of_def prefix_two)

lemma zip_path_child [simp]: "zip_path_of E (r @ [n]) = root_dir E @ [n @ ''.zip'']"
  by (simp add: zip_path_of_def path_name_def)

lemma zip_path_stack: "zip_path_of E (stack_root_of E) = root_dir E @ [STACK_DIR_NAME @ ''.zip'']"
  by (simp add: stack_root_of_def)

lemma settled_spots:
  "settled E w \<longleftrightarrow>
     (\<forall>q. (prefix q (stack_root_of E @ [''scripts'']) \<or> q = stack_root_of E @ [''logs''])
            \<longrightarrow> node_inv q not_file w) \<and>
     (\<forall>q. (q = ACTIONS_LOG E \<or> q \<in> (\<lambda>rel. stack_root_of E @ rel) ` set template_paths
            \<or> q = zip_path_of E (stack_root_of E)) \<longrightarrow> node_inv q not_dir w)"
  by (auto simp: settled_def)

lemma safe_spot_not_file:
  assumes "prefix q (stack_root_of E @ [''scripts'']) \<or> q = stack_root_of E @ [''logs'']"
  shows "safe_spot E q not_file"
proof -
  from assms have q: "prefix q (root_dir E) \<or> q = root_dir E @ [STACK_DIR_NAME]
      \<or> q = root_dir E @ [STACK_DIR_NAME, ''scripts''] \<or> q = root_dir E @ [STACK_DIR_NAME, ''logs'']"
    by (auto simp: stack_root_of_def prefix_two)
  then have "q \<noteq> ACTIONS_LOG E" "q \<noteq> ERRORS_LOG E" "q \<noteq> zip_path_of E (stack_root_of E)"
    by (auto simp: ACTIONS_LOG_def ERRORS_LOG_def zip_path_stack)
  moreover have "q \<notin> (\<lambda>rel. stack_root_of E @ rel) ` set template_paths"
    using q by (auto simp: stack_root_of_def template_paths_def)
  ultimately show ?thesis
    by (simp add: safe_spot_def logs_closed_def log_closed_def)
qed

lemma safe_spot_not_dir:
  assumes "q = ACTIONS_LOG E \<or> q \<in> (\<lambda>rel. stack_root_of E @ rel) ` set template_paths
            \<or> q = zip_path_of E (stack_root_of E)"
  shows "safe_spot E q not_dir"
proof -
  from assms have "\<exists>a rest. q = root_dir E @ a # rest \<and> (a = STACK_DIR_NAME \<longrightarrow> rest \<noteq> []
      \<and> rest \<noteq> [''scripts''] \<and> rest \<noteq> [''logs''])"
    by (auto simp: ACTIONS_LOG_def zip_path_stack stack_root_of_def dest: template_nonempty)
  then obtain a rest where q: "q = root_dir E @ a # rest"
    and r: "a = STACK_DIR_NAME \<longrightarrow> rest \<noteq> [] \<and> rest \<noteq> [''scripts''] \<and> rest \<noteq> [''logs'']"
    by blast
  have "\<not> prefix q (root_dir E)"
    by (simp add: q)
  moreover have "\<not> prefix q (stack_root_of E @ [''scripts''])"
    "\<not> prefix q (stack_root_of E @ [''logs''])"
    using r by (auto simp: q stack_root_of_def prefix_two)
  ultimately show ?thesis
    by (simp add: safe_spot_def logs_closed_def log_closed_def)
qed

lemma safe_spot_closed:
  "safe_spot E q dir_node" "safe_spot E q some_node"
  by (auto simp: safe_spot_def logs_closed_def log_closed_def dir_closed_def file_closed_def
      x_closed_def dir_node_def some_node_def with_perm_def split: node.splits)

lemma settled_not_file:
  "settled E w \<Longrightarrow> prefix q (stack_root_of E @ [''scripts'']) \<or> q = stack_root_of E @ [''logs'']
     \<Longrightarrow> node_inv q not_file w"
  by (auto simp: settled_def)

lemma settled_not_dir:
  "settled E w \<Longrightarrow> q = ACTIONS_LOG E \<or> q \<in> (\<lambda>rel. stack_root_of E @ rel) ` set template_paths
            \<or> q = zip_path_of E (stack_root_of E)
     \<Longrightarrow> node_inv q not_dir w"
  by (auto simp: settled_def)

lemma preserves_snd: "preserves I m \<Longrightarrow> I w \<Longrightarrow> I (snd (m w))"
  by (simp add: preserves_def)

lemma preserves_settled:
  assumes "\<And>q P. safe_spot E q P \<Longrightarrow> preserves (node_inv q P) m"
  shows "preserves (settled E) m"
  unfolding preserves_def
proof (intro allI impI)
  fix w
  assume s: "settled E w"
  show "settled E (snd (m w))"
    unfolding settled_spots
  proof (intro conjI allI impI)
    fix q
    assume q: "prefix q (stack_root_of E @ [''scripts'']) \<or> q = stack_root_of E @ [''logs'']"
    with s have "node_inv q not_file w"
      by (rule settled_not_file)
    moreover have "preserves (node_inv q not_file) m"
      using q by (intro assms safe_spot_not_file)
    ultimately show "node_inv q not_file (snd (m w))"
      by (rule preserves_snd [rotated])
  next
    fix q
    assume q: "q = ACTIONS_LOG E \<or> q \<in> (\<lambda>rel. stack_root_of E @ rel) ` set template_paths
            \<or> q = zip_path_of E (stack_root_of E)"
    with s have "node_inv q not_dir w"
      by (rule settled_not_dir)
    moreover have "preserves (node_inv q not_dir) m"
      using q by (intro assms safe_spot_not_dir)
    ultimately show "node_inv q not_dir (snd (m w))"
      by (rule preserves_snd [rotated])
  qed
qed

text \<open>The steps of \<open>main\<close> keep every safe spot.\<close>

lemma spot_log_info: "safe_spot E q P \<Longrightarrow> preserves (node_inv q P) (log_info E msg)"
  by (intro preserves_log_info) (simp add: safe_spot_def logs_closed_def)

lemma spot_mkdir_p:
  assumes "safe_spot E q P"
    and "prefix p (stack_root_of E @ [''scripts'']) \<or> prefix p (stack_root_of E @ [''logs''])"
  shows "preserves (node_inv q P) (mkdir_p E p)"
proof -
  from assms(2) have "prefix q p \<Longrightarrow>
      prefix q (stack_root_of E @ [''scripts'']) \<or> prefix q (stack_root_of E @ [''logs''])"
    by (auto intro: prefix_order.trans)
  with assms(1) show ?thesis
    by (intro preserves_mkdir_p) (auto simp: safe_spot_def)
qed

lemma spot_write_text:
  "safe_spot E q P \<Longrightarrow> rel \<in> set template_paths
     \<Longrightarrow> preserves (node_inv q P) (write_text E (stack_root_of E @ rel) t)"
  unfolding write_text_def by (intro preserves_open_file) (auto simp: safe_spot_def)

lemma spot_safe_write:
  "safe_spot E q P \<Longrightarrow> rel \<in> set template_paths
     \<Longrightarrow> preserves (node_inv q P) (safe_write E (stack_root_of E @ rel) c)"
  using parent_template [of rel "stack_root_of E"]
  by (intro preserves_safe_write) (auto simp: safe_spot_def dest: prefix_snocD)

lemma spot_chmod_x:
  "safe_spot E q P \<Longrightarrow> preserves (node_inv q P)
     (io_bind (stat_mode E p) (\<lambda>mode. chmod E p (mode OR S_IXUSR OR S_IXGRP OR S_IXOTH)))"
  by (intro preserves_chmod_x) (simp add: safe_spot_def)

lemma spot_make_executable:
  "safe_spot E q P \<Longrightarrow> preserves (node_inv q P) (make_executable E p)"
  by (intro preserves_make_executable) (simp_all add: safe_spot_def)

lemma spot_zip_file:
  "safe_spot E q P \<Longrightarrow> preserves (node_inv q P)
     (zip_file E (zip_path_of E (stack_root_of E)) (stack_root_of E))"
  by (intro preserves_zip_file) (auto simp: safe_spot_def)

lemma spot_create_zip:
  "safe_spot E q P \<Longrightarrow> preserves (node_inv q P) (create_zip E (stack_root_of E))"
  by (intro preserves_create_zip) (auto simp: safe_spot_def)

lemma spot_main:
  "safe_spot E q P \<Longrightarrow> preserves (node_inv q P) (main E body)"
  by (intro preserves_main) (auto simp: safe_spot_def)

subsection \<open>In a settled world without refusals every step returns\<close>

lemma returns_try_raising:
  "returns (io_try m (\<lambda>e. io_then (h e) (io_raise e))) w \<longleftrightarrow> returns m w"
  by (cases "m w"; cases "fst (m w)")
    (simp_all add: returns_def io_try_def io_then_def io_bind_def io_raise_def
      split: prod.splits sum.splits)

lemma snd_try_returns:
  "returns m w \<Longrightarrow> snd (io_try m h w) = snd (m w)"
  by (cases "m w"; cases "fst (m w)") (simp_all add: returns_def io_try_def)

lemma returns_seq_inv:
  assumes "\<And>m. m \<in> set ms \<Longrightarrow> preserves I m"
    and "\<And>m w. m \<in> set ms \<Longrightarrow> I w \<Longrightarrow> returns m w"
    and "I w"
  shows "returns (io_seq ms) w"
  using assms
proof (induction ms arbitrary: w)
  case Nil
  show ?case by simp
next
  case (Cons m ms)
  have "returns m w"
    by (rule Cons.prems(2)) (simp_all add: Cons.prems(3))
  moreover have "I (snd (m w))"
    by (rule preserves_snd [OF Cons.prems(1) Cons.prems(3)]) simp
  then have "returns (io_seq ms) (snd (m w))"
    by (intro Cons.IH Cons.prems(1) Cons.prems(2)) simp_all
  ultimately show ?case
    by simp
qed

lemma returns_log_info_settled:
  "fault_free E \<Longrightarrow> settled E w \<Longrightarrow> returns (log_info E msg) w"
  by (simp add: log_info_returns settled_can_log)

lemma returns_mkdir_p_settled:
  assumes "fault_free E" and "settled E w"
    and "prefix p (stack_root_of E @ [''scripts'']) \<or> p = stack_root_of E @ [''logs'']"
  shows "returns (mkdir_p E p) w"
proof -
  have "\<not> is_file w q" if "prefix q p" for q
  proof -
    from that assms(3)
    have "prefix q (stack_root_of E @ [''scripts'']) \<or> q = stack_root_of E @ [''logs'']"
      by (auto simp: prefix_one intro: prefix_order.trans prefix_snocD)
    with assms(2) have "node_inv q not_file w"
      by (rule settled_not_file)
    then show ?thesis
      by (simp add: is_file_not_file)
  qed
  with assms(1) show ?thesis
    by (simp add: mkdir_p_returns fault_free_def list_ex_iff)
qed

lemma stack_root_nonempty [simp]: "stack_root_of E \<noteq> []"
  by (simp add: stack_root_of_def)

lemma returns_safe_write_settled:
  assumes f: "fault_free E" and s: "settled E w" and rel: "rel \<in> set template_paths"
  shows "returns (safe_write E (stack_root_of E @ rel) c) w"
proof -
  let ?p = "stack_root_of E @ rel"
  let ?w1 = "snd (mkdir_p E (parent ?p) w)"
  let ?w2 = "snd (write_text E ?p (lstrip_nl (dedent c)) ?w1)"
  from parent_template [OF rel, of "stack_root_of E"]
  have pp: "prefix (parent ?p) (stack_root_of E @ [''scripts''])"
    by auto
  then have 1: "returns (mkdir_p E (parent ?p)) w"
    using f s by (intro returns_mkdir_p_settled) simp_all
  have "preserves (settled E) (mkdir_p E (parent ?p))"
    using pp by (intro preserves_settled spot_mkdir_p) simp_all
  then have s1: "settled E ?w1"
    using s by (rule preserves_snd)
  have "is_dir ?w1 (parent ?p)"
    using 1 by (intro mkdir_p_is_dir) simp_all
  moreover from s1 rel have "node_inv ?p not_dir ?w1"
    by (intro settled_not_dir) auto
  then have "\<not> is_dir ?w1 ?p"
    by (simp add: is_dir_not_dir)
  ultimately have 2: "returns (write_text E ?p (lstrip_nl (dedent c))) ?w1"
    using f by (simp add: write_text_def open_file_returns fault_free_def)
  have "preserves (settled E) (write_text E ?p (lstrip_nl (dedent c)))"
    using rel by (intro preserves_settled spot_write_text)
  then have "settled E ?w2"
    using s1 by (rule preserves_snd)
  with f have 3: "returns (log_info E (''Wrote file: '' @ str_path ?p)) ?w2"
    by (rule returns_log_info_settled)
  from 1 2 3 show ?thesis
    by (simp add: safe_write_def returns_try_raising)
qed

lemma make_executable_alt:
  "make_executable E p =
    io_try (io_then (io_bind (stat_mode E p) (\<lambda>mode.
                       chmod E p (mode OR S_IXUSR OR S_IXGRP OR S_IXOTH)))
                    (log_info E (''Marked executable: '' @ str_path p)))
      (\<lambda>exc. io_then (log_error E (''Failed to chmod +x '' @ str_path p @ '': '' @ exc_str exc))
                      (io_raise exc))"
  by (rule ext)
    (simp add: make_executable_def io_try_def io_then_def io_bind_def
      split: prod.splits sum.splits)

lemma returns_chmod_x:
  "fault_free E \<Longrightarrow> node_inv p some_node w \<Longrightarrow>
     returns (io_bind (stat_mode E p) (\<lambda>mode. chmod E p (mode OR S_IXUSR OR S_IXGRP OR S_IXOTH))) w"
  by (cases "node_at w p")
    (simp_all add: returns_def io_bind_def stat_mode_def chmod_def fault_free_def node_inv_def
      some_node_def)

lemma returns_make_executable_settled:
  assumes f: "fault_free E" and s: "settled E w" and n: "node_inv p some_node w"
  shows "returns (make_executable E p) w"
proof -
  let ?A = "io_bind (stat_mode E p) (\<lambda>mode. chmod E p (mode OR S_IXUSR OR S_IXGRP OR S_IXOTH))"
  from f n have 1: "returns ?A w"
    by (rule returns_chmod_x)
  have "preserves (settled E) ?A"
    by (intro preserves_settled spot_chmod_x)
  then have "settled E (snd (?A w))"
    using s by (rule preserves_snd)
  with f have "returns (log_info E (''Marked executable: '' @ str_path p)) (snd (?A w))"
    by (rule returns_log_info_settled)
  with 1 show ?thesis
    by (simp add: make_executable_alt returns_try_raising)
qed

lemma spot_create_stack_files:
  "safe_spot E q P \<Longrightarrow> preserves (node_inv q P) (create_stack_files E body (stack_root_of E))"
  by (intro preserves_create_stack_files) (auto simp: safe_spot_def)

lemma spot_mark_scripts:
  "safe_spot E q P \<Longrightarrow> preserves (node_inv q P)
     (io_bind (glob_sh E d) (\<lambda>shs. io_seq (map (make_executable E) shs)))"
  by (intro preserves_mark_scripts) (simp_all add: safe_spot_def)

lemma returns_create_stack_files:
  assumes "fault_free E" and "settled E w"
  shows "returns (create_stack_files E body (stack_root_of E)) w"
  unfolding create_stack_files_def
proof (rule returns_seq_inv [where I = "settled E"])
  fix m
  assume "m \<in> set (map (\<lambda>rel. safe_write E (stack_root_of E @ rel) (body rel)) template_paths)"
  then obtain rel where rel: "rel \<in> set template_paths"
    and m: "m = safe_write E (stack_root_of E @ rel) (body rel)"
    by auto
  show "preserves (settled E) m"
    unfolding m using rel by (intro preserves_settled spot_safe_write)
  show "returns m v" if "settled E v" for v
    unfolding m using assms(1) that rel by (rule returns_safe_write_settled)
next
  show "settled E w"
    by (rule assms(2))
qed

lemma returns_bind_glob:
  "returns (io_bind (glob_sh E d) f) w \<longleftrightarrow> returns (f (projr (fst (glob_sh E d w)))) w"
  by (simp add: returns_def io_bind_glob)

lemma snd_bind_glob:
  "snd (io_bind (glob_sh E d) f w) = snd (f (projr (fst (glob_sh E d w))) w)"
  by (simp only: io_bind_glob)

lemma returns_mark_all:
  assumes f: "fault_free E" and s: "settled E w" and n: "\<forall>p \<in> set ps. node_inv p some_node w"
  shows "returns (io_seq (map (make_executable E) ps)) w"
proof (rule returns_seq_inv [where I = "\<lambda>v. settled E v \<and> (\<forall>p \<in> set ps. node_inv p some_node v)"])
  fix m
  assume "m \<in> set (map (make_executable E) ps)"
  then obtain p where p: "p \<in> set ps" and m: "m = make_executable E p"
    by auto
  show "preserves (\<lambda>v. settled E v \<and> (\<forall>p \<in> set ps. node_inv p some_node v)) m"
    unfolding m
    by (intro preserves_conj preserves_ball preserves_settled spot_make_executable
        safe_spot_closed)
  show "returns m v" if "settled E v \<and> (\<forall>p \<in> set ps. node_inv p some_node v)" for v
    unfolding m using f that p by (intro returns_make_executable_settled) simp_all
next
  from s n show "settled E w \<and> (\<forall>p \<in> set ps. node_inv p some_node w)"
    by simp
qed

lemma returns_mark_scripts:
  assumes "fault_free E" and "settled E w"
  shows "returns (io_bind (glob_sh E d) (\<lambda>shs. io_seq (map (make_executable E) shs))) w"
  unfolding returns_bind_glob using assms
  by (intro returns_mark_all) (simp_all add: glob_sh_set node_inv_def some_node_def)

lemma returns_zip_write_all:
  assumes "fault_free E" and "\<forall>p \<in> set ps. prefix (root_dir E) p \<and> is_file w p"
  shows "fst (zip_write_all E ps acc w) = Inr ()"
  using assms(2)
proof (induction ps arbitrary: acc)
  case Nil
  show ?case by simp
next
  case (Cons p ps)
  from Cons.prems have "is_file w p" and r: "relative_to p (root_dir E) = Inr (drop (length (root_dir E)) p)"
    by (simp_all add: relative_to_def)
  then obtain m d where "node_at w p = Some (File m d)"
    by (auto simp: is_file_def split: option.splits node.splits)
  with assms(1) have "fst (read_bytes E p w) = Inr d"
    by (simp add: read_bytes_def fault_free_def)
  with r Cons show ?case
    by simp
qed

lemma is_dir_node: "is_dir w q \<longleftrightarrow> q = [] \<or> node_inv q dir_node w"
  by (simp add: is_dir_def node_inv_def dir_node_def)

lemma root_dir_kept:
  assumes "\<And>q P. safe_spot E q P \<Longrightarrow> preserves (node_inv q P) m" and "is_dir w (root_dir E)"
  shows "is_dir (snd (m w)) (root_dir E)"
proof (cases "root_dir E = []")
  case True
  then show ?thesis by (simp add: is_dir_def)
next
  case False
  with assms(2) have "node_inv (root_dir E) dir_node w"
    by (simp add: is_dir_node)
  moreover have "preserves (node_inv (root_dir E) dir_node) m"
    by (intro assms(1) safe_spot_closed)
  ultimately have "node_inv (root_dir E) dir_node (snd (m w))"
    by (rule preserves_snd [rotated])
  then show ?thesis
    by (simp add: is_dir_node)
qed

lemma returns_zip_file:
  assumes f: "fault_free E" and s: "settled E w" and d: "is_dir w (root_dir E)"
  shows "returns (zip_file E (zip_path_of E (stack_root_of E)) (stack_root_of E)) w"
proof -
  let ?zp = "zip_path_of E (stack_root_of E)"
  let ?w1 = "snd (write_text E ?zp [] w)"
  have "node_inv ?zp not_dir w"
    using s by (rule settled_not_dir) blast
  then have "\<not> is_dir w ?zp"
    by (simp add: is_dir_not_dir zip_path_stack)
  with f d have 1: "returns (write_text E ?zp []) w"
    by (simp add: write_text_def open_file_returns fault_free_def zip_path_stack parent_def)
  have "\<forall>p \<in> set (walk_files E ?w1 (stack_root_of E)). prefix (root_dir E) p \<and> is_file ?w1 p"
    by (auto simp: set_walk_files stack_root_of_def strict_prefix_child)
  with f have "fst (zip_write_all E (walk_files E ?w1 (stack_root_of E)) [] ?w1) = Inr ()"
    by (rule returns_zip_write_all)
  then have "returns (\<lambda>w. case zip_write_all E (walk_files E w (stack_root_of E)) [] w of
               (r, zf) \<Rightarrow> (r, set_node ?zp
                                 (File (case node_at w ?zp of Some n \<Rightarrow> st_mode n
                                        | None \<Rightarrow> new_file_mode E) (zip_bytes E (ticks w) zf)) w)) ?w1"
    by (auto simp: returns_def split: prod.splits)
  with 1 show ?thesis
    by (simp add: zip_file_def)
qed

subsection \<open>The parts of \<open>main\<close>\<close>

lemma main_try_split:
  "main_try E body sr = io_then (create_stack_files E body sr) (finish_run E sr)"
  by (simp add: main_try_def finish_run_def)

lemma main_split:
  "main E body =
     io_then (log_info E (''Generating stack version '' @ VERSION @ '' in '' @ str_path (root_dir E)))
    (io_then (prepare_root E)
             (io_try (main_try E body (stack_root_of E))
                (\<lambda>e. io_then (log_error E (''Unhandled exception during stack generation:\<newline>''
                                           @ format_exc E e)) (io_raise e))))"
  by (simp add: main_def prepare_root_def main_except_def [abs_def])

lemma preserves_finish_run:
  assumes "logs_closed E q P"
    and "dir_closed E P \<or> q = [] \<or> \<not> prefix q (sr @ [''logs''])"
    and "(\<forall>t. file_closed E (\<lambda>_. t) P) \<or> q \<noteq> zip_path_of E sr"
    and "x_closed P \<or> (\<not> (parent q = sr @ [''scripts''] \<and> suffix ''.sh'' (path_name q))
                        \<and> q \<noteq> sr @ [''install.sh''])"
  shows "preserves (node_inv q P) (finish_run E sr)"
  unfolding finish_run_def
proof (intro preserves_then)
  have l: "preserves (node_inv q P) (log_info E m)" for m
    using assms(1) by (intro preserves_log_info) (simp add: logs_closed_def)
  have z: "preserves (node_inv q P) (create_zip E sr)"
    using assms by (intro preserves_create_zip) auto
  show "preserves (node_inv q P)
     (io_bind (create_zip E sr) (\<lambda>zip_path.
       io_then (log_info E (''Stack files generation complete for '' @ VERSION @ ''.''))
      (io_then (log_info E (''Root directory: '' @ str_path sr))
      (io_then (log_info E (''ZIP archive: '' @ str_path zip_path))
               (print_stdout ([CHR 0x0A] @ ''Done.'' @ [CHR 0x0A] @ ''Root: '' @ str_path sr
                  @ [CHR 0x0A] @ ''ZIP:  '' @ str_path zip_path @ [CHR 0x0A, CHR 0x0A]))))))"
    by (intro preserves_bind preserves_then preserves_print l z)
  show "preserves (node_inv q P)
     (io_bind (glob_sh E (sr @ [''scripts''])) (\<lambda>shs. io_seq (map (make_executable E) shs)))"
    using assms by (intro preserves_mark_scripts) auto
  show "preserves (node_inv q P) (make_executable E (sr @ [''install.sh'']))"
    using assms by (intro preserves_make_executable) auto
  show "preserves (node_inv q P) (mkdir_p E (sr @ [''logs'']))"
    using assms by (intro preserves_mkdir_p) auto
qed

lemma spot_finish_run:
  "safe_spot E q P \<Longrightarrow> preserves (node_inv q P) (finish_run E (stack_root_of E))"
  by (intro preserves_finish_run) (auto simp: safe_spot_def)

lemma spot_prepare_root:
  assumes "safe_spot E q P"
  shows "preserves (node_inv q P) (prepare_root E)"
proof -
  have l: "preserves (node_inv q P) (log_info E m)" for m
    using assms by (rule spot_log_info)
  have d: "preserves (node_inv q P) (mkdir_p E (stack_root_of E))"
    using assms by (rule spot_mkdir_p) (simp add: prefix_snocD)
  show ?thesis
    unfolding prepare_root_def
    by (intro preserves_bind preserves_if preserves_then preserves_path_exists l d)
qed

lemma content_holds: "content_at w p = Some t \<longleftrightarrow> node_inv p (holds t) w"
  by (simp add: content_at_def node_inv_def holds_def split: option.splits node.splits)

lemma holds_closed [simp]: "dir_closed E (holds t)" "x_closed (holds t)"
  by (auto simp: dir_closed_def x_closed_def holds_def with_perm_def split: node.splits)

lemma some_node_closed [simp]:
  "dir_closed E some_node" "x_closed some_node" "file_closed E f some_node"
  by (auto simp: dir_closed_def x_closed_def file_closed_def some_node_def)

lemma holds_some: "node_inv p (holds t) w \<Longrightarrow> node_inv p some_node w"
  by (simp add: node_inv_def holds_def some_node_def split: option.splits)

lemma template_clear:
  assumes "rel \<in> set template_paths"
  shows "stack_root_of E @ rel \<noteq> ACTIONS_LOG E" "stack_root_of E @ rel \<noteq> ERRORS_LOG E"
    "\<not> prefix (stack_root_of E @ rel) (root_dir E)"
    "stack_root_of E @ rel \<noteq> zip_path_of E (stack_root_of E)"
  using template_head [OF assms]
  by (auto simp: stack_root_of_def ACTIONS_LOG_def ERRORS_LOG_def)

lemma template_logs_closed:
  "rel \<in> set template_paths \<Longrightarrow> dir_closed E P \<Longrightarrow> logs_closed E (stack_root_of E @ rel) P"
  by (simp add: logs_closed_def log_closed_def template_clear)

lemma write_all_content:
  assumes "io_seq (map (\<lambda>rel. safe_write E (stack_root_of E @ rel) (body rel)) rels) w = (Inr (), w')"
    and "distinct rels" and "set rels \<subseteq> set template_paths"
  shows "\<forall>rel \<in> set rels. content_at w' (stack_root_of E @ rel) = Some (lstrip_nl (dedent (body rel)))"
  using assms
proof (induction rels arbitrary: w)
  case Nil
  show ?case by simp
next
  case (Cons r rs)
  let ?t = "lstrip_nl (dedent (body r))"
  from Cons.prems(1)
  have "io_then (safe_write E (stack_root_of E @ r) (body r))
          (io_seq (map (\<lambda>rel. safe_write E (stack_root_of E @ rel) (body rel)) rs)) w = (Inr (), w')"
    by simp
  from io_then_InrD [OF this] obtain x w1
    where 1: "safe_write E (stack_root_of E @ r) (body r) w = (Inr x, w1)"
    and 2: "io_seq (map (\<lambda>rel. safe_write E (stack_root_of E @ rel) (body rel)) rs) w1 = (Inr (), w')"
    by blast
  from Cons.prems(3) have r: "r \<in> set template_paths" and rs: "set rs \<subseteq> set template_paths"
    by simp_all
  have "stack_root_of E @ r \<noteq> ACTIONS_LOG E"
    using r by (rule template_clear(1))
  moreover from 1 have "safe_write E (stack_root_of E @ r) (body r) w = (Inr (), w1)"
    by simp
  ultimately have "content_at w1 (stack_root_of E @ r) = Some ?t"
    by (intro safe_write_content)
  then have i: "node_inv (stack_root_of E @ r) (holds ?t) w1"
    by (simp add: content_holds)
  have "preserves (node_inv (stack_root_of E @ r) (holds ?t))
          (io_seq (map (\<lambda>rel. safe_write E (stack_root_of E @ rel) (body rel)) rs))"
  proof (rule preserves_seq)
    fix m
    assume "m \<in> set (map (\<lambda>rel. safe_write E (stack_root_of E @ rel) (body rel)) rs)"
    then obtain rel where rel: "rel \<in> set rs"
      and m: "m = safe_write E (stack_root_of E @ rel) (body rel)"
      by auto
    from rel Cons.prems(2) have "r \<noteq> rel"
      by auto
    then show "preserves (node_inv (stack_root_of E @ r) (holds ?t)) m"
      unfolding m using r
      by (intro preserves_safe_write template_logs_closed) simp_all
  qed
  then have "node_inv (stack_root_of E @ r) (holds ?t) w'"
    using i 2 by (rule preservesD)
  moreover from Cons.prems(2) rs
  have "\<forall>rel \<in> set rs. content_at w' (stack_root_of E @ rel) = Some (lstrip_nl (dedent (body rel)))"
    by (intro Cons.IH [OF 2]) simp_all
  ultimately show ?case
    by (simp add: content_holds)
qed

lemma distinct_templates: "distinct template_paths"
  by (simp add: template_paths_def)

subsection \<open>Timestamps\<close>









lemma parent_logs [simp]:
  "parent (ACTIONS_LOG E) = root_dir E" "parent (ERRORS_LOG E) = root_dir E"
  by (simp_all add: parent_def ACTIONS_LOG_def ERRORS_LOG_def)





subsection \<open>Texts made of record lines\<close>

lemma join_nl_Cons2: "ys \<noteq> [] \<Longrightarrow> join_nl (x # ys) = x @ CHR 0x0A # join_nl ys"
  by (cases ys) simp_all

lemma join_nl_snoc_empty: "join_nl (xs @ [[]]) = concat (map (\<lambda>l. l @ [CHR 0x0A]) xs)"
  by (induction xs) (simp_all add: join_nl_Cons2)

lemma complete_lines:
  assumes "last (split_nl a) = []"
  shows "a = concat (map (\<lambda>l. l @ [CHR 0x0A]) (butlast (split_nl a)))"
proof -
  have "split_nl a = butlast (split_nl a) @ [last (split_nl a)]"
    by simp
  with assms have "split_nl a = butlast (split_nl a) @ [[]]"
    by simp
  then have "join_nl (split_nl a) = join_nl (butlast (split_nl a) @ [[]])"
    by simp
  then show ?thesis
    by (simp only: join_split join_nl_snoc_empty)
qed

lemma records_Nil [simp]: "records tag pointer []"
  by (simp add: records_def)

lemma records_line:
  assumes "plain l" and "record_line tag pointer l" and "records tag pointer t"
  shows "records tag pointer (l @ CHR 0x0A # t)"
proof -
  from assms(1) have "split_nl (l @ CHR 0x0A # t) = l # split_nl t"
    by (simp add: plain_def split_nl_append_line)
  with assms(2,3) show ?thesis
    by (simp add: records_def)
qed

lemma records_concat:
  assumes "\<forall>l \<in> set ls. plain l \<and> record_line tag pointer l" and "records tag pointer t"
  shows "records tag pointer (concat (map (\<lambda>l. l @ [CHR 0x0A]) ls) @ t)"
  using assms by (induction ls) (simp_all add: records_line)

lemma records_append:
  assumes "records tag pointer a" and "records tag pointer b"
  shows "records tag pointer (a @ b)"
proof -
  let ?ls = "butlast (split_nl a)"
  from assms(1) have a: "a = concat (map (\<lambda>l. l @ [CHR 0x0A]) ?ls)"
    by (intro complete_lines) (simp add: records_def)
  have "plain l \<and> record_line tag pointer l" if "l \<in> set ?ls" for l
  proof -
    from that have "l \<in> set (split_nl a)"
      by (rule in_set_butlastD)
    then have "plain l"
      by (simp add: plain_def split_nl_no_nl)
    moreover from assms(1) that have "record_line tag pointer l"
      by (simp add: records_def list_all_iff)
    ultimately show ?thesis ..
  qed
  then have "records tag pointer (concat (map (\<lambda>l. l @ [CHR 0x0A]) ?ls) @ b)"
    using assms(2) by (intro records_concat) simp_all
  then show ?thesis
    by (simp only: a [symmetric])
qed

lemma records_one:
  assumes "plain l" and "record_line tag pointer l"
  shows "records tag pointer (l @ [CHR 0x0A])"
  using records_line [OF assms records_Nil] by simp

subsection \<open>Logs that grow by record lines\<close>

lemma appendsI: "text_of w' l = text_of w l @ a \<Longrightarrow> R a \<Longrightarrow> appends R l w w'"
  by (simp add: appends_def)

lemma appendsD: "appends R l w w' \<Longrightarrow> \<exists>a. text_of w' l = text_of w l @ a \<and> R a"
  by (auto simp: appends_def prefix_def)

lemma appends_trans:
  assumes "\<And>a b. R a \<Longrightarrow> R b \<Longrightarrow> R (a @ b)"
    and "appends R l w w1" and "appends R l w1 w2"
  shows "appends R l w w2"
proof -
  from appendsD [OF assms(2)] obtain a where a: "text_of w1 l = text_of w l @ a" and "R a"
    by blast
  moreover from appendsD [OF assms(3)] obtain b where b: "text_of w2 l = text_of w1 l @ b"
    and "R b"
    by blast
  ultimately have "R (a @ b)"
    by (intro assms(1))
  moreover from a b have "text_of w2 l = text_of w l @ (a @ b)"
    by simp
  ultimately show ?thesis
    by (rule appendsI [rotated])
qed

lemma one_line_same:
  "text_of w' (ACTIONS_LOG E) = text_of w (ACTIONS_LOG E) \<Longrightarrow>
   text_of w' (ERRORS_LOG E) = text_of w (ERRORS_LOG E) \<Longrightarrow> one_line_logging E w w'"
  by (simp add: one_line_logging_def appends_def)

lemma one_line_refl [simp]: "one_line_logging E w w"
  by (simp add: one_line_same)

lemma one_line_trans:
  "one_line_logging E w w1 \<Longrightarrow> one_line_logging E w1 w2 \<Longrightarrow> one_line_logging E w w2"
  unfolding one_line_logging_def
  by (auto intro: appends_trans [where ?w1.0 = w1] records_append)

subsection \<open>Commands that log one-line records only\<close>

lemma io_bind_fst:
  "fst (m w) = Inl e \<Longrightarrow> io_bind m f w = (Inl e, snd (m w))"
  "fst (m w) = Inr x \<Longrightarrow> io_bind m f w = f x (snd (m w))"
  by (cases "m w"; simp add: io_bind_def)+

lemma io_then_fst:
  "fst (m w) = Inl e \<Longrightarrow> io_then m n w = (Inl e, snd (m w))"
  "fst (m w) = Inr x \<Longrightarrow> io_then m n w = n (snd (m w))"
  by (cases "m w"; simp add: io_then_def io_bind_def)+

lemma io_try_fst:
  "fst (m w) = Inl e \<Longrightarrow> io_try m h w = h e (snd (m w))"
  "fst (m w) = Inr x \<Longrightarrow> io_try m h w = (Inr x, snd (m w))"
  by (cases "m w"; simp add: io_try_def)+

lemma tameD:
  assumes "tame E I m" and "I w"
  shows "one_line_logging E w (snd (m w))" and "fst (m w) = Inl e \<Longrightarrow> plain (exc_str e)"
  using assms by (simp_all add: tame_def)

lemma tame_weaken: "tame E (\<lambda>_. True) m \<Longrightarrow> tame E I m"
  by (simp add: tame_def)

lemma tame_return [simp]: "tame E I (io_return x)"
  by (simp add: tame_def io_return_def)

lemma tame_raise: "plain (exc_str e) \<Longrightarrow> tame E I (io_raise e)"
  by (simp add: tame_def io_raise_def)

lemma tame_bind:
  assumes m: "tame E I m" and p: "preserves I m" and f: "\<And>x. tame E I (f x)"
  shows "tame E I (io_bind m f)"
  unfolding tame_def
proof (intro allI impI)
  fix w
  assume w: "I w"
  show "one_line_logging E w (snd (io_bind m f w))
      \<and> (\<forall>e. fst (io_bind m f w) = Inl e \<longrightarrow> plain (exc_str e))"
  proof (cases "fst (m w)")
    case (Inl e)
    then have "io_bind m f w = (Inl e, snd (m w))"
      by (simp add: io_bind_fst)
    with tameD [OF m w] Inl show ?thesis
      by simp
  next
    case (Inr x)
    then have b: "io_bind m f w = f x (snd (m w))"
      by (simp add: io_bind_fst)
    from p w have "I (snd (m w))"
      by (simp add: preserves_def)
    from tameD [OF f this] tameD(1) [OF m w] show ?thesis
      unfolding b by (auto intro: one_line_trans)
  qed
qed

lemma tame_then:
  "tame E I m \<Longrightarrow> preserves I m \<Longrightarrow> tame E I n \<Longrightarrow> tame E I (io_then m n)"
  unfolding io_then_def by (rule tame_bind)

lemma preserves_top [simp]: "preserves (\<lambda>_. True) m"
  by (simp add: preserves_def)

lemma tame_then_top:
  assumes m: "tame E I m" and n: "tame E (\<lambda>_. True) n"
  shows "tame E I (io_then m n)"
  unfolding tame_def
proof (intro allI impI)
  fix w
  assume w: "I w"
  show "one_line_logging E w (snd (io_then m n w))
      \<and> (\<forall>e. fst (io_then m n w) = Inl e \<longrightarrow> plain (exc_str e))"
  proof (cases "fst (m w)")
    case (Inl e)
    then have "io_then m n w = (Inl e, snd (m w))"
      by (simp add: io_then_fst)
    with tameD [OF m w] Inl show ?thesis
      by simp
  next
    case (Inr x)
    then have b: "io_then m n w = n (snd (m w))"
      by (simp add: io_then_fst)
    from tameD [OF n, of "snd (m w)"] tameD(1) [OF m w] show ?thesis
      unfolding b by (auto intro: one_line_trans)
  qed
qed

lemma tame_try:
  assumes m: "tame E I m" and h: "\<And>e. plain (exc_str e) \<Longrightarrow> tame E (\<lambda>_. True) (h e)"
  shows "tame E I (io_try m h)"
  unfolding tame_def
proof (intro allI impI)
  fix w
  assume w: "I w"
  show "one_line_logging E w (snd (io_try m h w))
      \<and> (\<forall>e. fst (io_try m h w) = Inl e \<longrightarrow> plain (exc_str e))"
  proof (cases "fst (m w)")
    case (Inl e)
    then have b: "io_try m h w = h e (snd (m w))"
      by (simp add: io_try_fst)
    from tameD(2) [OF m w Inl] have "tame E (\<lambda>_. True) (h e)"
      by (rule h)
    from tameD [OF this, of "snd (m w)"] tameD(1) [OF m w] show ?thesis
      unfolding b by (auto intro: one_line_trans)
  next
    case (Inr x)
    then have "io_try m h w = (Inr x, snd (m w))"
      by (simp add: io_try_fst)
    with tameD(1) [OF m w] show ?thesis
      by simp
  qed
qed

lemma tame_seq:
  "(\<And>m. m \<in> set ms \<Longrightarrow> tame E (\<lambda>_. True) m) \<Longrightarrow> tame E (\<lambda>_. True) (io_seq ms)"
  by (induction ms) (simp_all add: tame_then_top)

lemma tame_if: "tame E I m \<Longrightarrow> tame E I n \<Longrightarrow> tame E I (if b then m else n)"
  by simp

lemma tame_quiet:
  assumes "\<And>w l. text_of (snd (m w)) l = text_of w l"
    and "\<And>w e. fst (m w) = Inl e \<Longrightarrow> plain (exc_str e)"
  shows "tame E I m"
  using assms by (simp add: tame_def one_line_same)

subsection \<open>Texts without a newline\<close>

lemma plain_simps [simp]:
  "plain []" "plain (c # s) \<longleftrightarrow> c \<noteq> CHR 0x0A \<and> plain s" "plain (a @ b) \<longleftrightarrow> plain a \<and> plain b"
  by (auto simp: plain_def)

lemma plain_path_simps [simp]:
  "plain_path []" "plain_path (c # p) \<longleftrightarrow> plain c \<and> plain_path p"
  "plain_path (p @ q) \<longleftrightarrow> plain_path p \<and> plain_path q"
  by (simp_all add: plain_path_def)

lemma plain_path_parent: "plain_path p \<Longrightarrow> plain_path (parent p)"
  by (auto simp: plain_path_def parent_def list_all_iff dest: in_set_butlastD)

lemma plain_str_path [simp]: "plain (str_path p) \<longleftrightarrow> plain_path p"
proof -
  have "plain (concat (map (\<lambda>c. ''/'' @ c) q)) \<longleftrightarrow> plain_path q" for q
    by (induction q) simp_all
  then show ?thesis
    by (simp add: str_path_def)
qed

lemma plain_strftime [simp]: "plain (strftime d)"
  by (simp add: plain_def strftime_no_nl)

lemma plain_os_error: "plain s \<Longrightarrow> plain_path p \<Longrightarrow> plain (exc_str (os_error s p))"
  by (simp add: os_error_def)

lemma plain_missing: "plain_path p \<Longrightarrow> plain (exc_str (missing w p))"
  by (simp add: missing_def plain_os_error)

lemma plain_log_paths:
  "plain_env E \<Longrightarrow> plain_path (ACTIONS_LOG E)" "plain_env E \<Longrightarrow> plain_path (ERRORS_LOG E)"
  "plain_env E \<Longrightarrow> plain_path (stack_root_of E)"
  "plain_env E \<Longrightarrow> plain_path (zip_path_of E (stack_root_of E))"
  by (simp_all add: plain_env_def ACTIONS_LOG_def ERRORS_LOG_def stack_root_of_def
      zip_path_of_def path_name_def STACK_DIR_NAME_def)

lemma plain_fault: "plain_env E \<Longrightarrow> fault E k p = Some e \<Longrightarrow> plain (exc_str e)"
  by (auto simp: plain_env_def)

subsection \<open>What the primitives raise\<close>

lemma raises_mkdir_p:
  "plain_env E \<Longrightarrow> plain_path p \<Longrightarrow> fst (mkdir_p E p w) = Inl e \<Longrightarrow> plain (exc_str e)"
  by (auto simp: mkdir_p_def plain_os_error dest: plain_fault split: option.splits if_splits)

lemma raises_open_file:
  "plain_env E \<Longrightarrow> plain_path p \<Longrightarrow> fst (open_file E k p f w) = Inl e \<Longrightarrow> plain (exc_str e)"
  by (auto simp: open_file_def plain_os_error plain_missing dest: plain_fault
      split: option.splits if_splits node.splits)

lemma raises_stat_mode:
  "plain_env E \<Longrightarrow> plain_path p \<Longrightarrow> fst (stat_mode E p w) = Inl e \<Longrightarrow> plain (exc_str e)"
  by (auto simp: stat_mode_def plain_missing dest: plain_fault split: option.splits)

lemma raises_chmod:
  "plain_env E \<Longrightarrow> plain_path p \<Longrightarrow> fst (chmod E p m w) = Inl e \<Longrightarrow> plain (exc_str e)"
  by (auto simp: chmod_def plain_missing dest: plain_fault split: option.splits)

lemma raises_path_exists:
  "plain_env E \<Longrightarrow> fst (path_exists E p w) = Inl e \<Longrightarrow> plain (exc_str e)"
  by (auto simp: path_exists_def dest: plain_fault split: option.splits)

subsection \<open>What the primitives leave of a text\<close>

lemma text_of_node: "text_of w l = (case node_at w l of Some (File m d) \<Rightarrow> d | _ \<Rightarrow> [])"
  by (simp add: text_of_def content_at_def split: option.splits node.splits)

lemma text_mkdir_p [simp]: "text_of (snd (mkdir_p E p w)) l = text_of w l"
  by (simp add: text_of_node mkdir_p_node)

lemma text_open_file: "l \<noteq> p \<Longrightarrow> text_of (snd (open_file E k p f w)) l = text_of w l"
  by (simp add: text_of_node open_file_node)

lemma text_chmod [simp]: "text_of (snd (chmod E p m w)) l = text_of w l"
  by (auto simp: text_of_node chmod_node with_perm_def split: option.splits node.splits)

lemma text_zip_file: "l \<noteq> zp \<Longrightarrow> text_of (snd (zip_file E zp sr w)) l = text_of w l"
  by (simp add: text_of_node zip_file_node)

lemma tame_still:
  assumes "\<And>w. text_of (snd (m w)) (ACTIONS_LOG E) = text_of w (ACTIONS_LOG E)"
    and "\<And>w. text_of (snd (m w)) (ERRORS_LOG E) = text_of w (ERRORS_LOG E)"
    and "\<And>w e. fst (m w) = Inl e \<Longrightarrow> plain (exc_str e)"
  shows "tame E I m"
  using assms by (simp add: tame_def one_line_same)

lemma tame_mkdir_p: "plain_env E \<Longrightarrow> plain_path p \<Longrightarrow> tame E I (mkdir_p E p)"
  by (rule tame_still) (simp_all add: raises_mkdir_p)

lemma tame_write_text:
  "plain_env E \<Longrightarrow> plain_path p \<Longrightarrow> p \<noteq> ACTIONS_LOG E \<Longrightarrow> p \<noteq> ERRORS_LOG E \<Longrightarrow>
     tame E I (write_text E p t)"
  unfolding write_text_def
  by (rule tame_still) (simp_all add: raises_open_file text_open_file)

lemma tame_stat_mode: "plain_env E \<Longrightarrow> plain_path p \<Longrightarrow> tame E I (stat_mode E p)"
  by (rule tame_still) (simp_all add: raises_stat_mode)

lemma tame_chmod: "plain_env E \<Longrightarrow> plain_path p \<Longrightarrow> tame E I (chmod E p m)"
  by (rule tame_still) (simp_all add: raises_chmod)

lemma tame_path_exists: "plain_env E \<Longrightarrow> tame E I (path_exists E p)"
  by (rule tame_still) (simp_all add: raises_path_exists)

lemma tame_print_stdout [simp]: "tame E I (print_stdout s)"
proof (rule tame_still)
  show "fst (print_stdout s w) = Inl e \<Longrightarrow> plain (exc_str e)" for w e
    by (simp add: print_stdout_def)
qed simp_all

lemma tame_print_stderr [simp]: "tame E I (print_stderr s)"
proof (rule tame_still)
  show "fst (print_stderr s w) = Inl e \<Longrightarrow> plain (exc_str e)" for w e
    by (simp add: print_stderr_def)
qed simp_all

subsection \<open>The records of the two log functions\<close>

lemma record_info_line: "record_line info_tag [] (strftime d @ info_tag @ msg)"
  by (simp add: record_line_def strftime_length strftime_iso)

lemma records_info_line: "plain msg \<Longrightarrow> records info_tag [] (info_line (strftime d) msg)"
proof -
  assume "plain msg"
  then have "plain (strftime d @ info_tag @ msg)"
    by (simp add: info_tag_def)
  then have "records info_tag [] ((strftime d @ info_tag @ msg) @ [CHR 0x0A])"
    using record_info_line by (rule records_one)
  then show ?thesis
    by (simp add: info_line_def info_tag_def)
qed

lemma record_error_line:
  "record_line error_tag (error_pointer E) (strftime d @ error_tag @ msg @ error_pointer E)"
  by (simp add: record_line_def strftime_length strftime_iso suffix_def)

lemma records_error_line:
  assumes "plain msg" and "plain_env E"
  shows "records error_tag (error_pointer E) (error_line E (strftime d) msg)"
proof -
  from assms(2) have "plain (error_pointer E)"
    by (simp add: error_pointer_def plain_log_paths)
  with assms(1) have "plain (strftime d @ error_tag @ msg @ error_pointer E)"
    by (simp add: error_tag_def)
  then have "records error_tag (error_pointer E)
      ((strftime d @ error_tag @ msg @ error_pointer E) @ [CHR 0x0A])"
    using record_error_line by (rule records_one)
  then show ?thesis
    by (simp add: error_line_def error_tag_def error_pointer_def)
qed

lemma append_log_text_other:
  "l \<noteq> p \<Longrightarrow> text_of (snd (append_log E p t w)) l = text_of w l"
  by (simp add: append_log_def append_text_def text_open_file)

lemma raises_append_log:
  assumes "plain_env E" and "plain_path p" and "fst (append_log E p t w) = Inl e"
  shows "plain (exc_str e)"
proof (cases "fst (mkdir_p E (parent p) w)")
  case (Inl e')
  with assms(3) have "e' = e"
    by (simp add: append_log_def io_then_fst)
  with Inl assms(1,2) show ?thesis
    by (auto intro: raises_mkdir_p plain_path_parent)
next
  case (Inr x)
  with assms(3) have "fst (open_file E OpAppend p (\<lambda>d. d @ t) (snd (mkdir_p E (parent p) w))) = Inl e"
    by (simp add: append_log_def append_text_def io_then_fst)
  with assms(1,2) show ?thesis
    by (rule raises_open_file)
qed

lemma log_info_text:
  "text_of (snd (log_info E msg w)) l
     = (if l = ACTIONS_LOG E \<and> can_log E (ACTIONS_LOG E) w
        then text_of w l @ info_line (strftime (clock E (ticks w))) msg else text_of w l)"
  by (cases "l = ACTIONS_LOG E")
    (simp_all add: log_info_def snd_bind_timestamp append_log_text append_log_text_other)

lemma log_error_text:
  "text_of (snd (log_error E msg w)) l
     = (if l = ERRORS_LOG E \<and> can_log E (ERRORS_LOG E) w
        then text_of w l @ error_line E (strftime (clock E (ticks w))) msg else text_of w l)"
  by (cases "l = ERRORS_LOG E")
    (simp_all add: log_error_def snd_bind_timestamp append_log_text append_log_text_other)

lemma raises_log_info:
  assumes "plain_env E" and "fst (log_info E msg w) = Inl e"
  shows "plain (exc_str e)"
proof -
  let ?w = "w\<lparr>ticks := Suc (ticks w)\<rparr>"
  let ?l = "info_line (strftime (clock E (ticks w))) msg"
  from assms(2) have r: "fst (io_then (append_log E (ACTIONS_LOG E) ?l) (print_stdout ?l) ?w) = Inl e"
    by (simp add: log_info_def io_bind_timestamp)
  have "fst (append_log E (ACTIONS_LOG E) ?l ?w) = Inl e"
  proof (cases "fst (append_log E (ACTIONS_LOG E) ?l ?w)")
    case (Inl e')
    with r show ?thesis
      by (simp add: io_then_fst)
  next
    case (Inr x)
    with r show ?thesis
      by (simp add: io_then_fst print_stdout_def)
  qed
  with assms(1) show ?thesis
    by (intro raises_append_log [of E "ACTIONS_LOG E"]) (simp_all add: plain_log_paths)
qed

lemma raises_log_error:
  assumes "plain_env E" and "fst (log_error E msg w) = Inl e"
  shows "plain (exc_str e)"
proof -
  let ?w = "w\<lparr>ticks := Suc (ticks w)\<rparr>"
  let ?l = "error_line E (strftime (clock E (ticks w))) msg"
  from assms(2) have r: "fst (io_then (append_log E (ERRORS_LOG E) ?l) (print_stderr ?l) ?w) = Inl e"
    by (simp add: log_error_def io_bind_timestamp)
  have "fst (append_log E (ERRORS_LOG E) ?l ?w) = Inl e"
  proof (cases "fst (append_log E (ERRORS_LOG E) ?l ?w)")
    case (Inl e')
    with r show ?thesis
      by (simp add: io_then_fst)
  next
    case (Inr x)
    with r show ?thesis
      by (simp add: io_then_fst print_stderr_def)
  qed
  with assms(1) show ?thesis
    by (intro raises_append_log [of E "ERRORS_LOG E"]) (simp_all add: plain_log_paths)
qed

lemma tame_log_info:
  assumes "plain_env E" and "plain msg"
  shows "tame E I (log_info E msg)"
  unfolding tame_def one_line_logging_def
proof (intro allI impI conjI)
  fix w
  show "appends (records info_tag []) (ACTIONS_LOG E) w (snd (log_info E msg w))"
    using assms(2) by (simp add: appends_def log_info_text records_info_line)
  show "appends (records error_tag (error_pointer E)) (ERRORS_LOG E) w (snd (log_info E msg w))"
    by (simp add: appends_def log_info_text log_neq [symmetric])
  fix e
  assume "fst (log_info E msg w) = Inl e"
  with assms(1) show "plain (exc_str e)"
    by (rule raises_log_info)
qed

lemma tame_log_error:
  assumes "plain_env E" and "plain msg"
  shows "tame E I (log_error E msg)"
  unfolding tame_def one_line_logging_def
proof (intro allI impI conjI)
  fix w
  show "appends (records error_tag (error_pointer E)) (ERRORS_LOG E) w (snd (log_error E msg w))"
    using assms by (simp add: appends_def log_error_text records_error_line)
  show "appends (records info_tag []) (ACTIONS_LOG E) w (snd (log_error E msg w))"
    by (simp add: appends_def log_error_text log_neq)
  fix e
  assume "fst (log_error E msg w) = Inl e"
  with assms(1) show "plain (exc_str e)"
    by (rule raises_log_error)
qed

subsection \<open>The components log one-line records\<close>

lemma tame_bind_top:
  assumes m: "tame E I m" and f: "\<And>x. tame E (\<lambda>_. True) (f x)"
  shows "tame E I (io_bind m f)"
  unfolding tame_def
proof (intro allI impI)
  fix w
  assume w: "I w"
  show "one_line_logging E w (snd (io_bind m f w))
      \<and> (\<forall>e. fst (io_bind m f w) = Inl e \<longrightarrow> plain (exc_str e))"
  proof (cases "fst (m w)")
    case (Inl e)
    then have "io_bind m f w = (Inl e, snd (m w))"
      by (simp add: io_bind_fst)
    with tameD [OF m w] Inl show ?thesis
      by simp
  next
    case (Inr x)
    then have b: "io_bind m f w = f x (snd (m w))"
      by (simp add: io_bind_fst)
    from tameD [OF f, where w = "snd (m w)"] tameD(1) [OF m w] show ?thesis
      unfolding b by (auto intro: one_line_trans)
  qed
qed

lemma tame_safe_write:
  assumes "plain_env E" and "plain_path p" and "p \<noteq> ACTIONS_LOG E" and "p \<noteq> ERRORS_LOG E"
  shows "tame E I (safe_write E p c)"
  unfolding safe_write_def
proof (rule tame_try)
  show "tame E I (io_then (mkdir_p E (parent p))
          (io_then (write_text E p (lstrip_nl (dedent c)))
                   (log_info E (''Wrote file: '' @ str_path p))))"
    using assms
    by (intro tame_then_top tame_mkdir_p tame_write_text tame_log_info)
      (simp_all add: plain_path_parent)
  show "tame E (\<lambda>_. True)
          (io_then (log_error E (''Failed to write '' @ str_path p @ '': '' @ exc_str e))
                   (io_raise e))" if "plain (exc_str e)" for e
    using assms that by (intro tame_then_top tame_log_error tame_raise) simp_all
qed

lemma tame_make_executable:
  assumes "plain_env E" and "plain_path p"
  shows "tame E I (make_executable E p)"
  unfolding make_executable_def
proof (rule tame_try)
  show "tame E I (io_bind (stat_mode E p) (\<lambda>mode.
          io_then (chmod E p (mode OR S_IXUSR OR S_IXGRP OR S_IXOTH))
                  (log_info E (''Marked executable: '' @ str_path p))))"
    using assms
    by (intro tame_bind_top tame_then_top tame_stat_mode tame_chmod tame_log_info) simp_all
  show "tame E (\<lambda>_. True)
          (io_then (log_error E (''Failed to chmod +x '' @ str_path p @ '': '' @ exc_str e))
                   (io_raise e))" if "plain (exc_str e)" for e
    using assms that by (intro tame_then_top tame_log_error tame_raise) simp_all
qed

lemma raises_zip_write_all:
  assumes "plain_env E" and "\<forall>p \<in> set ps. prefix (root_dir E) p \<and> is_file w p"
    and "fst (zip_write_all E ps acc w) = Inl e"
  shows "plain (exc_str e)"
  using assms(2,3)
proof (induction ps arbitrary: acc)
  case Nil
  then show ?case by simp
next
  case (Cons p ps)
  from Cons.prems(1) have rel: "relative_to p (root_dir E) = Inr (drop (length (root_dir E)) p)"
    and f: "is_file w p"
    by (simp_all add: relative_to_def)
  show ?case
  proof (cases "fault E OpRead p")
    case (Some e')
    with Cons.prems(2) rel have "e' = e"
      by (simp add: read_bytes_def)
    with Some assms(1) show ?thesis
      by (auto dest: plain_fault)
  next
    case None
    with f obtain d where "fst (read_bytes E p w) = Inr d"
      by (auto simp: read_bytes_def is_file_def split: option.splits node.splits)
    with Cons.prems(2) rel
    have "fst (zip_write_all E ps (acc @ [(drop (length (root_dir E)) p, d)]) w) = Inl e"
      by simp
    with Cons.prems(1) show ?thesis
      by (intro Cons.IH) simp_all
  qed
qed

lemma raises_zip_file:
  assumes "plain_env E"
    and "fst (zip_file E (zip_path_of E (stack_root_of E)) (stack_root_of E) w) = Inl e"
  shows "plain (exc_str e)"
proof (cases "fst (write_text E (zip_path_of E (stack_root_of E)) [] w)")
  case (Inl e')
  with assms(2) have "e' = e"
    by (simp add: zip_file_def io_then_fst)
  with Inl have "fst (open_file E OpWrite (zip_path_of E (stack_root_of E)) (\<lambda>_. []) w) = Inl e"
    by (simp add: write_text_def)
  with assms(1) show ?thesis
    by (intro raises_open_file [of E "zip_path_of E (stack_root_of E)"])
      (simp_all add: plain_log_paths)
next
  case (Inr x)
  let ?w = "snd (write_text E (zip_path_of E (stack_root_of E)) [] w)"
  from Inr assms(2)
  have "fst (zip_write_all E (walk_files E ?w (stack_root_of E)) [] ?w) = Inl e"
    by (simp add: zip_file_def io_then_fst split: prod.splits)
  moreover have "\<forall>p \<in> set (walk_files E ?w (stack_root_of E)). prefix (root_dir E) p \<and> is_file ?w p"
    by (auto simp: set_walk_files stack_root_of_def strict_prefix_child)
  ultimately show ?thesis
    using assms(1) by (intro raises_zip_write_all [of E _ ?w]) simp_all
qed

lemma tame_zip_file:
  assumes "plain_env E"
  shows "tame E I (zip_file E (zip_path_of E (stack_root_of E)) (stack_root_of E))"
  using assms
  by (intro tame_still) (simp_all add: text_zip_file zip_path_not_log [symmetric] raises_zip_file)

lemma tame_create_zip:
  assumes "plain_env E"
  shows "tame E I (create_zip E (stack_root_of E))"
  unfolding create_zip_def
proof (rule tame_try)
  show "tame E I (io_then (zip_file E (zip_path_of E (stack_root_of E)) (stack_root_of E))
       (io_then (log_info E (''Created ZIP archive: '' @ str_path (zip_path_of E (stack_root_of E))))
                (io_return (zip_path_of E (stack_root_of E)))))"
    using assms
    by (intro tame_then_top tame_zip_file tame_log_info tame_return) (simp_all add: plain_log_paths)
  show "tame E (\<lambda>_. True)
          (io_then (log_error E (''Failed to create zip '' @ str_path (zip_path_of E (stack_root_of E))
                                     @ '': '' @ exc_str e))
                   (io_raise e))" if "plain (exc_str e)" for e
    using assms that
    by (intro tame_then_top tame_log_error tame_raise) (simp_all add: plain_log_paths)
qed

subsection \<open>The steps of \<open>main\<close> log one-line records\<close>

lemma plain_scripts_iff:
  "plain_scripts E w \<longleftrightarrow>
     (\<forall>q. parent q = stack_root_of E @ [''scripts''] \<and> \<not> plain_path q
          \<longrightarrow> node_inv q (\<lambda>n. n = None) w)"
  by (auto simp: plain_scripts_def list_all_iff set_paths node_inv_def)

lemma safe_spot_odd_script:
  assumes "parent q = stack_root_of E @ [''scripts'']" and "\<not> plain_path q"
    and "plain_env E"
  shows "safe_spot E q (\<lambda>n. n = None)"
proof -
  from assms(1) obtain n where q: "q = stack_root_of E @ [''scripts'', n]"
    by (cases q rule: rev_cases) (simp_all add: parent_def)
  with assms(2,3) have n: "\<not> plain n"
    by (simp add: plain_log_paths)
  have "q \<notin> (\<lambda>rel. stack_root_of E @ rel) ` set template_paths"
  proof
    assume "q \<in> (\<lambda>rel. stack_root_of E @ rel) ` set template_paths"
    then have "[''scripts'', n] \<in> set template_paths"
      by (auto simp: q)
    then have "plain n"
      by (auto simp: template_paths_def)
    with n show False
      by simp
  qed
  then show ?thesis
    by (simp add: safe_spot_def logs_closed_def log_closed_def x_closed_def q
        stack_root_of_def ACTIONS_LOG_def ERRORS_LOG_def zip_path_of_def)
qed

lemma preserves_plain_scripts:
  assumes "plain_env E" and "\<And>q P. safe_spot E q P \<Longrightarrow> preserves (node_inv q P) m"
  shows "preserves (plain_scripts E) m"
  unfolding preserves_def plain_scripts_iff
proof (intro allI impI)
  fix w q
  assume a: "\<forall>q. parent q = stack_root_of E @ [''scripts''] \<and> \<not> plain_path q
                  \<longrightarrow> node_inv q (\<lambda>n. n = None) w"
    and q: "parent q = stack_root_of E @ [''scripts''] \<and> \<not> plain_path q"
  from q have "preserves (node_inv q (\<lambda>n. n = None)) m"
    by (intro assms(2) safe_spot_odd_script assms(1)) simp_all
  moreover from a q have "node_inv q (\<lambda>n. n = None) w"
    by blast
  ultimately show "node_inv q (\<lambda>n. n = None) (snd (m w))"
    by (rule preserves_snd)
qed

lemma plain_templates: "rel \<in> set template_paths \<Longrightarrow> plain_path rel"
  by (auto simp: template_paths_def)

lemma tame_create_stack_files:
  assumes "plain_env E"
  shows "tame E I (create_stack_files E body (stack_root_of E))"
  unfolding create_stack_files_def
proof (rule tame_weaken, rule tame_seq)
  fix m
  assume "m \<in> set (map (\<lambda>rel. safe_write E (stack_root_of E @ rel) (body rel)) template_paths)"
  then obtain rel where rel: "rel \<in> set template_paths"
    and m: "m = safe_write E (stack_root_of E @ rel) (body rel)"
    by auto
  from assms rel show "tame E (\<lambda>_. True) m"
    unfolding m
    by (intro tame_safe_write) (simp_all add: plain_log_paths plain_templates template_clear)
qed

lemma tame_mark_scripts:
  assumes "plain_env E"
  shows "tame E (plain_scripts E)
     (io_bind (glob_sh E (stack_root_of E @ [''scripts'']))
        (\<lambda>shs. io_seq (map (make_executable E) shs)))"
  unfolding tame_def
proof (intro allI impI)
  fix w
  assume w: "plain_scripts E w"
  let ?ps = "projr (fst (glob_sh E (stack_root_of E @ [''scripts'']) w))"
  have "tame E (\<lambda>_. True) (io_seq (map (make_executable E) ?ps))"
  proof (rule tame_seq)
    fix m
    assume "m \<in> set (map (make_executable E) ?ps)"
    then obtain p where p: "p \<in> set ?ps" and m: "m = make_executable E p"
      by auto
    from glob_sh_set [OF p] have "parent p = stack_root_of E @ [''scripts'']"
      and "p \<in> set (paths w)"
      by (simp_all add: set_paths)
    with w have "plain_path p"
      by (auto simp: plain_scripts_def list_all_iff)
    with assms show "tame E (\<lambda>_. True) m"
      unfolding m by (rule tame_make_executable)
  qed
  from tameD [OF this, of w]
  show "one_line_logging E w
         (snd (io_bind (glob_sh E (stack_root_of E @ [''scripts'']))
                (\<lambda>shs. io_seq (map (make_executable E) shs)) w)) \<and>
        (\<forall>e. fst (io_bind (glob_sh E (stack_root_of E @ [''scripts'']))
                    (\<lambda>shs. io_seq (map (make_executable E) shs)) w) = Inl e
              \<longrightarrow> plain (exc_str e))"
    by (simp only: io_bind_glob) simp
qed

lemma bind_create_zip:
  "io_bind (create_zip E sr) f = io_then (create_zip E sr) (f (zip_path_of E sr))"
proof (rule ext)
  fix w
  show "io_bind (create_zip E sr) f w = io_then (create_zip E sr) (f (zip_path_of E sr)) w"
  proof (cases "fst (create_zip E sr w)")
    case (Inl e)
    then show ?thesis
      by (simp add: io_bind_fst io_then_fst)
  next
    case (Inr zp)
    then have "create_zip E sr w = (Inr zp, snd (create_zip E sr w))"
      by (simp add: prod_eq_iff)
    from create_zip_InrD [OF this] have "zp = zip_path_of E sr"
      by simp
    with Inr show ?thesis
      by (simp add: io_bind_fst io_then_fst)
  qed
qed

lemma tame_finish_run:
  assumes "plain_env E"
  shows "tame E (plain_scripts E) (finish_run E (stack_root_of E))"
  unfolding finish_run_def bind_create_zip using assms
  by (intro tame_then_top tame_mark_scripts tame_make_executable tame_mkdir_p tame_create_zip
      tame_log_info tame_print_stdout)
    (simp_all add: plain_log_paths VERSION_def)

lemma tame_main_try:
  assumes "plain_env E"
  shows "tame E (plain_scripts E) (main_try E body (stack_root_of E))"
  unfolding main_try_split using assms
  by (intro tame_then tame_create_stack_files tame_finish_run preserves_plain_scripts
      spot_create_stack_files)

lemma tame_prepare_root:
  assumes "plain_env E"
  shows "tame E I (prepare_root E)"
  unfolding prepare_root_def using assms
  by (intro tame_bind_top tame_if tame_then_top tame_path_exists tame_mkdir_p tame_log_info)
    (simp_all add: plain_log_paths)

lemma tame_main_steps:
  assumes "plain_env E"
  shows "tame E (plain_scripts E) (main_steps E body)"
  unfolding main_steps_def using assms
  by (intro tame_then tame_log_info tame_prepare_root tame_main_try preserves_plain_scripts
      spot_log_info spot_prepare_root)
    (simp_all add: VERSION_def plain_env_def)

lemma snd_main_except:
  "snd (main_except E e w)
     = snd (log_error E (''Unhandled exception during stack generation:\<newline>'' @ format_exc E e) w)"
  by (simp add: main_except_def)

lemma snd_io_try:
  "snd (io_try m h w) = (case fst (m w) of Inl e \<Rightarrow> snd (h e (snd (m w))) | Inr x \<Rightarrow> snd (m w))"
  by (cases "m w"; cases "fst (m w)") (simp_all add: io_try_def)

lemma main_actions_text:
  "text_of (snd (main E body w)) (ACTIONS_LOG E)
     = text_of (snd (main_steps E body w)) (ACTIONS_LOG E)"
  by (simp add: main_split main_steps_def snd_io_try snd_main_except log_error_text
      returns_try_raising split: sum.splits)

lemma main_actions:
  assumes "plain_env E" and "plain_scripts E w"
  shows "appends (records info_tag []) (ACTIONS_LOG E) w (snd (main E body w))"
proof -
  from tameD(1) [OF tame_main_steps [OF assms(1)] assms(2)]
  have "appends (records info_tag []) (ACTIONS_LOG E) w (snd (main_steps E body w))"
    by (simp add: one_line_logging_def)
  then show ?thesis
    by (simp add: appends_def main_actions_text)
qed

lemma main_errors_text:
  "text_of (snd (main E body w)) (ERRORS_LOG E)
      = text_of (snd (main_steps E body w)) (ERRORS_LOG E)
   \<or> (\<exists>e. fst (main E body w) = Inl e \<and>
        text_of (snd (main E body w)) (ERRORS_LOG E)
          = text_of (snd (main_steps E body w)) (ERRORS_LOG E)
            @ error_line E (strftime (clock E (ticks (snd (main_steps E body w)))))
                (''Unhandled exception during stack generation:\<newline>'' @ format_exc E e))"
proof -
  let ?L = "log_info E (''Generating stack version '' @ VERSION @ '' in '' @ str_path (root_dir E))"
  let ?T = "main_try E body (stack_root_of E)"
  let ?H = "\<lambda>e. io_then (log_error E (''Unhandled exception during stack generation:\<newline>''
                                           @ format_exc E e)) (io_raise e)"
  let ?w1 = "snd (?L w)"
  let ?w2 = "snd (prepare_root E ?w1)"
  let ?w3 = "snd (?T ?w2)"
  show ?thesis
  proof (cases "returns ?L w \<and> returns (prepare_root E) ?w1")
    case False
    then have "snd (main E body w) = snd (main_steps E body w)"
      by (auto simp: main_split main_steps_def)
    then show ?thesis
      by simp
  next
    case True
    then have m: "main E body w = io_try ?T ?H ?w2"
      and s: "snd (main_steps E body w) = ?w3"
      by (simp_all add: main_split main_steps_def io_then_fst returns_unit)
    show ?thesis
    proof (cases "fst (?T ?w2)")
      case (Inr x)
      with m s show ?thesis
        by (simp add: io_try_fst)
    next
      case (Inl e)
      let ?msg = "''Unhandled exception during stack generation:\<newline>'' @ format_exc E e"
      from Inl m have r: "main E body w = io_then (log_error E ?msg) (io_raise e) ?w3"
        by (simp add: io_try_fst)
      show ?thesis
      proof (cases "can_log E (ERRORS_LOG E) ?w3")
        case False
        with r s show ?thesis
          by (simp add: log_error_text log_error_returns)
      next
        case True
        then have "fst (log_error E ?msg ?w3) = Inr ()"
          by (simp add: log_error_returns returns_unit [symmetric])
        with r have "fst (main E body w) = Inl e"
          and "snd (main E body w) = snd (log_error E ?msg ?w3)"
          by (simp_all add: io_then_fst io_raise_def)
        with True s show ?thesis
          by (simp add: log_error_text)
      qed
    qed
  qed
qed

lemma demo_plain: "plain_env demo_env" "plain_scripts demo_env demo_world"
  by (simp_all add: plain_env_def plain_scripts_def demo_env_def demo_world_def paths_def
      parent_def stack_root_of_def)

subsection \<open>A run without refusals returns\<close>

lemma preserves_ready:
  assumes "\<And>q P. safe_spot E q P \<Longrightarrow> preserves (node_inv q P) m"
  shows "preserves (ready E) m"
  unfolding preserves_def ready_def
proof (intro allI impI conjI)
  fix w
  assume w: "settled E w \<and> is_dir w (root_dir E)"
  have "preserves (settled E) m"
    using assms by (rule preserves_settled)
  with w show "settled E (snd (m w))"
    by (simp add: preserves_def)
  from assms w show "is_dir (snd (m w)) (root_dir E)"
    by (intro root_dir_kept) simp_all
qed

lemma returns_then_inv:
  assumes "returns m w" and "I w" and "preserves I m" and "\<And>v. I v \<Longrightarrow> returns n v"
  shows "returns (io_then m n) w"
  using assms by (simp add: preserves_def)

lemma returns_create_zip:
  assumes f: "fault_free E" and r: "ready E w"
  shows "returns (create_zip E (stack_root_of E)) w"
proof -
  have "returns (io_then (zip_file E (zip_path_of E (stack_root_of E)) (stack_root_of E))
          (io_then (log_info E (''Created ZIP archive: '' @ str_path (zip_path_of E (stack_root_of E))))
                   (io_return (zip_path_of E (stack_root_of E))))) w"
  proof (rule returns_then_inv [where I = "ready E"])
    from f r show "returns (zip_file E (zip_path_of E (stack_root_of E)) (stack_root_of E)) w"
      by (intro returns_zip_file) (simp_all add: ready_def)
    show "ready E w"
      by (rule r)
    show "preserves (ready E) (zip_file E (zip_path_of E (stack_root_of E)) (stack_root_of E))"
      by (intro preserves_ready spot_zip_file)
    show "returns (io_then (log_info E (''Created ZIP archive: ''
                                        @ str_path (zip_path_of E (stack_root_of E))))
                   (io_return (zip_path_of E (stack_root_of E)))) v" if "ready E v" for v
      using f that by (simp add: returns_log_info_settled ready_def)
  qed
  then show ?thesis
    by (simp only: create_zip_def returns_try_raising)
qed

lemma ready_step:
  assumes "\<And>q P. safe_spot E q P \<Longrightarrow> preserves (node_inv q P) m" and "ready E w"
  shows "ready E (snd (m w))"
  using preserves_ready [of E m, OF assms(1)] assms(2) by (rule preserves_snd)

lemma ready_steps:
  assumes "ready E w"
  shows "ready E (snd (log_info E m w))"
    and "ready E (snd (make_executable E p w))"
    and "ready E (snd (mkdir_p E (stack_root_of E @ [''logs'']) w))"
    and "ready E (snd (mkdir_p E (stack_root_of E) w))"
    and "ready E (snd (create_zip E (stack_root_of E) w))"
    and "ready E (snd (create_stack_files E body (stack_root_of E) w))"
    and "ready E (snd (io_bind (glob_sh E d) (\<lambda>shs. io_seq (map (make_executable E) shs)) w))"
    and "ready E (snd (prepare_root E w))"
proof -
  note s = ready_step [OF _ assms]
  show "ready E (snd (log_info E m w))"
    by (rule s) (rule spot_log_info)
  show "ready E (snd (make_executable E p w))"
    by (rule s) (rule spot_make_executable)
  show "ready E (snd (mkdir_p E (stack_root_of E @ [''logs'']) w))"
    by (rule s) (rule spot_mkdir_p, simp_all)
  show "ready E (snd (mkdir_p E (stack_root_of E) w))"
    by (rule s) (rule spot_mkdir_p, simp_all add: prefix_snocD)
  show "ready E (snd (create_zip E (stack_root_of E) w))"
    by (rule s) (rule spot_create_zip)
  show "ready E (snd (create_stack_files E body (stack_root_of E) w))"
    by (rule s) (rule spot_create_stack_files)
  show "ready E (snd (io_bind (glob_sh E d) (\<lambda>shs. io_seq (map (make_executable E) shs)) w))"
    by (rule s) (rule spot_mark_scripts)
  show "ready E (snd (prepare_root E w))"
    by (rule s) (rule spot_prepare_root)
qed

lemma some_node_steps:
  assumes "node_inv q some_node w"
  shows "node_inv q some_node
           (snd (io_bind (glob_sh E d) (\<lambda>shs. io_seq (map (make_executable E) shs)) w))"
  using spot_mark_scripts [OF safe_spot_closed(2)] assms by (rule preserves_snd)

lemma returns_ready:
  assumes "fault_free E" and "ready E w"
  shows "returns (log_info E m) w"
    and "returns (mkdir_p E (stack_root_of E @ [''logs''])) w"
    and "returns (mkdir_p E (stack_root_of E)) w"
    and "returns (create_stack_files E body (stack_root_of E)) w"
    and "returns (io_bind (glob_sh E d) (\<lambda>shs. io_seq (map (make_executable E) shs))) w"
    and "node_inv p some_node w \<Longrightarrow> returns (make_executable E p) w"
  using assms
  by (simp_all add: ready_def returns_log_info_settled returns_mkdir_p_settled prefix_snocD
      returns_create_stack_files returns_mark_scripts returns_make_executable_settled)

lemma returns_finish_run:
  assumes "fault_free E" and "ready E w"
    and "node_inv (stack_root_of E @ [''install.sh'']) some_node w"
  shows "returns (finish_run E (stack_root_of E)) w"
  unfolding finish_run_def bind_create_zip using assms
  by (simp add: returns_ready returns_create_zip ready_steps some_node_steps)

lemma returns_result: "returns m w \<Longrightarrow> m w = (Inr (), snd (m w))" for m :: "unit io"
  by (simp add: returns_unit prod_eq_iff)

lemma install_written:
  assumes "returns (create_stack_files E body (stack_root_of E)) w"
  shows "node_inv (stack_root_of E @ [''install.sh'']) some_node
           (snd (create_stack_files E body (stack_root_of E) w))"
proof -
  from assms have "io_seq (map (\<lambda>rel. safe_write E (stack_root_of E @ rel) (body rel))
      template_paths) w = (Inr (), snd (create_stack_files E body (stack_root_of E) w))"
    unfolding create_stack_files_def by (rule returns_result)
  from write_all_content [OF this distinct_templates]
  have "content_at (snd (create_stack_files E body (stack_root_of E) w))
          (stack_root_of E @ [''install.sh'']) = Some (lstrip_nl (dedent (body [''install.sh''])))"
    by (simp add: template_paths_def)
  then show ?thesis
    by (intro holds_some) (simp add: content_holds)
qed

lemma returns_main_try:
  assumes "fault_free E" and "ready E w"
  shows "returns (main_try E body (stack_root_of E)) w"
  unfolding main_try_split using assms
  by (simp add: returns_ready returns_finish_run ready_steps install_written)

lemma returns_prepare_root:
  assumes "fault_free E" and "ready E w"
  shows "returns (prepare_root E) w"
proof -
  have "returns (if b then log_info E m
                 else io_then (mkdir_p E (stack_root_of E)) (log_info E m')) w" for b m m'
    using assms by (simp add: returns_ready ready_steps)
  moreover have "fst (path_exists E (stack_root_of E) w)
      = Inr (stack_root_of E = [] \<or> node_at w (stack_root_of E) \<noteq> None)"
    using assms(1) by (simp add: path_exists_def fault_free_def)
  ultimately show ?thesis
    by (simp add: prepare_root_def returns_def io_bind_fst)
qed

lemma ready_after_log:
  assumes "fault_free E" and "settled E w"
  shows "ready E (snd (log_info E m w))"
proof -
  from assms have c: "can_log E (ACTIONS_LOG E) w"
    by (rule settled_can_log)
  have "settled E (snd (log_info E m w))"
    using preserves_settled [of E "log_info E m", OF spot_log_info] assms(2)
    by (rule preserves_snd)
  moreover have "is_dir (snd (log_info E m w)) (root_dir E)"
    by (rule log_info_effect(5) [OF c]) simp
  ultimately show ?thesis
    by (simp add: ready_def)
qed

lemma returns_main_steps:
  assumes "fault_free E" and "settled E w"
  shows "returns (main_steps E body) w"
  unfolding main_steps_def using assms
  by (simp add: returns_log_info_settled returns_prepare_root returns_main_try ready_after_log
      ready_steps)

lemma returns_main_iff: "returns (main E body) w \<longleftrightarrow> returns (main_steps E body) w"
  by (simp add: main_split main_steps_def returns_try_raising)

lemma snd_main_returns:
  "returns (main_steps E body) w \<Longrightarrow> snd (main E body w) = snd (main_steps E body w)"
  by (simp add: main_split main_steps_def snd_try_returns returns_try_raising)

lemma returns_main:
  "fault_free E \<Longrightarrow> settled E w \<Longrightarrow> returns (main E body) w"
  by (simp add: returns_main_iff returns_main_steps)

lemma settled_main: "settled E w \<Longrightarrow> settled E (snd (main E body w))"
  using preserves_settled [of E "main E body", OF spot_main] by (rule preserves_snd)

lemma fresh_settled:
  assumes "fresh E w" and "can_log E (ACTIONS_LOG E) w"
    and "\<not> is_dir w (zip_path_of E (stack_root_of E))"
  shows "settled E w"
proof -
  from assms(2) have a: "\<forall>q. prefix q (root_dir E) \<longrightarrow> node_inv q not_file w"
    and b: "node_inv (ACTIONS_LOG E) not_dir w"
    by (simp_all add: can_log_alt)
  have n: "node_inv q P w" if "prefix (stack_root_of E) q" and "P None" for q P
    using assms(1) that by (simp add: fresh_def node_inv_def)
  have "node_inv q not_file w" if "prefix q (stack_root_of E @ [''scripts''])" for q
  proof (cases "prefix q (root_dir E)")
    case True
    with a show ?thesis by simp
  next
    case False
    with that have "prefix (stack_root_of E) q"
      by (auto simp: stack_root_of_def prefix_two prefix_one)
    then show ?thesis
      by (rule n) (simp add: not_file_def)
  qed
  moreover have "node_inv (stack_root_of E @ [''logs'']) not_file w"
    by (rule n) (simp_all add: not_file_def)
  moreover have "node_inv (stack_root_of E @ rel) not_dir w" for rel
    by (rule n) (simp_all add: not_dir_def)
  moreover from assms(3) have "node_inv (zip_path_of E (stack_root_of E)) not_dir w"
    by (simp add: is_dir_not_dir zip_path_stack)
  ultimately show ?thesis
    using b by (simp add: settled_def)
qed

subsection \<open>Two runs in succession\<close>

lemma content_at_is: "content_at w q = c \<longleftrightarrow> node_inv q (content_is c) w"
  by (simp add: content_at_def node_inv_def content_is_def)

lemma text_from_iff: "prefix t (text_of w q) \<longleftrightarrow> node_inv q (text_from t) w"
  by (simp add: text_of_node node_inv_def text_from_def)

lemma content_is_closed [simp]: "dir_closed E (content_is c)" "x_closed (content_is c)"
  by (auto simp: dir_closed_def x_closed_def content_is_def with_perm_def split: node.splits)

lemma text_from_closed [simp]:
  "dir_closed E (text_from t)" "x_closed (text_from t)" "file_closed E (\<lambda>d. d @ x) (text_from t)"
  by (auto simp: dir_closed_def x_closed_def file_closed_def text_from_def with_perm_def
      split: node.splits)

lemma below_stack_root:
  assumes "strict_prefix (stack_root_of E) q"
  shows "\<not> prefix q (root_dir E)" "q \<noteq> ACTIONS_LOG E" "q \<noteq> ERRORS_LOG E"
    "q \<noteq> zip_path_of E (stack_root_of E)" "q \<noteq> []"
  using assms
  by (auto simp: stack_root_of_def strict_prefix_child ACTIONS_LOG_def ERRORS_LOG_def)

lemma safe_spot_content:
  assumes "strict_prefix (stack_root_of E) q"
    and "q \<notin> (\<lambda>rel. stack_root_of E @ rel) ` set template_paths"
  shows "safe_spot E q (content_is c)"
  using assms below_stack_root [OF assms(1)]
  by (simp add: safe_spot_def logs_closed_def log_closed_def)

lemma safe_spot_log_text:
  "safe_spot E (ACTIONS_LOG E) (text_from t)" "safe_spot E (ERRORS_LOG E) (text_from t)"
proof -
  have "l \<notin> (\<lambda>rel. stack_root_of E @ rel) ` set template_paths"
    if "l = ACTIONS_LOG E \<or> l = ERRORS_LOG E" for l
    using that template_clear [of _ E] by auto
  then show "safe_spot E (ACTIONS_LOG E) (text_from t)" "safe_spot E (ERRORS_LOG E) (text_from t)"
    by (simp_all add: safe_spot_def logs_closed_def log_closed_def zip_path_not_log [symmetric])
qed

lemma main_result:
  assumes "main E body w = (Inr (), w')"
  shows "returns (main_steps E body) w" and "w' = snd (main_steps E body w)"
proof -
  from assms have "returns (main E body) w"
    by (rule returnsI)
  then show r: "returns (main_steps E body) w"
    by (simp add: returns_main_iff)
  from assms have "w' = snd (main E body w)"
    by simp
  with r show "w' = snd (main_steps E body w)"
    by (simp add: snd_main_returns)
qed

lemma main_steps_worlds:
  assumes "returns (main_steps E body) w"
  shows "\<exists>v. returns (create_stack_files E body (stack_root_of E)) v
    \<and> returns (finish_run E (stack_root_of E)) (snd (create_stack_files E body (stack_root_of E) v))
    \<and> snd (main_steps E body w)
        = snd (finish_run E (stack_root_of E) (snd (create_stack_files E body (stack_root_of E) v)))"
  using assms by (auto simp: main_steps_def main_try_split)

lemma main_writes_templates:
  assumes "main E body w = (Inr (), w')" and "rel \<in> set template_paths"
  shows "content_at w' (stack_root_of E @ rel) = Some (lstrip_nl (dedent (body rel)))"
proof -
  let ?sr = "stack_root_of E"
  from main_steps_worlds [OF main_result(1) [OF assms(1)]] main_result(2) [OF assms(1)]
  obtain v where c: "returns (create_stack_files E body ?sr) v"
    and w': "w' = snd (finish_run E ?sr (snd (create_stack_files E body ?sr v)))"
    by auto
  let ?v = "snd (create_stack_files E body ?sr v)"
  from c have "io_seq (map (\<lambda>rel. safe_write E (?sr @ rel) (body rel)) template_paths) v
      = (Inr (), ?v)"
    unfolding create_stack_files_def by (rule returns_result)
  from write_all_content [OF this distinct_templates] assms(2)
  have "content_at ?v (?sr @ rel) = Some (lstrip_nl (dedent (body rel)))"
    by simp
  then have "node_inv (?sr @ rel) (holds (lstrip_nl (dedent (body rel)))) ?v"
    by (simp add: content_holds)
  moreover have "preserves (node_inv (?sr @ rel) (holds (lstrip_nl (dedent (body rel)))))
      (finish_run E ?sr)"
    using assms(2)
    by (intro preserves_finish_run template_logs_closed) (simp_all add: template_clear)
  ultimately have "node_inv (?sr @ rel) (holds (lstrip_nl (dedent (body rel)))) w'"
    unfolding w' by (rule preserves_snd [rotated])
  then show ?thesis
    by (simp add: content_holds)
qed

lemma main_keeps_content:
  assumes "strict_prefix (stack_root_of E) q"
    and "q \<notin> (\<lambda>rel. stack_root_of E @ rel) ` set template_paths"
  shows "content_at (snd (main E body w)) q = content_at w q"
proof -
  have "node_inv q (content_is (content_at w q)) w"
    by (simp add: content_at_is [symmetric])
  with spot_main [OF safe_spot_content [OF assms]]
  have "node_inv q (content_is (content_at w q)) (snd (main E body w))"
    by (rule preserves_snd)
  then show ?thesis
    by (simp add: content_at_is [symmetric])
qed

lemma main_keeps_log_text:
  assumes "l = ACTIONS_LOG E \<or> l = ERRORS_LOG E"
  shows "prefix (text_of w l) (text_of (snd (main E body w)) l)"
proof -
  have "node_inv l (text_from (text_of w l)) w"
    by (simp add: text_from_iff [symmetric])
  moreover from assms have "safe_spot E l (text_from (text_of w l))"
    by (auto simp: safe_spot_log_text)
  ultimately have "node_inv l (text_from (text_of w l)) (snd (main E body w))"
    by (intro preserves_snd [OF spot_main])
  then show ?thesis
    by (simp add: text_from_iff [symmetric])
qed

lemma main_actions_grow:
  assumes "main E body w = (Inr (), w')"
  shows "strict_prefix (text_of w (ACTIONS_LOG E)) (text_of w' (ACTIONS_LOG E))"
proof -
  let ?L = "log_info E (''Generating stack version '' @ VERSION @ '' in '' @ str_path (root_dir E))"
  let ?t = "text_of w (ACTIONS_LOG E)
      @ info_line (strftime (clock E (ticks w)))
          (''Generating stack version '' @ VERSION @ '' in '' @ str_path (root_dir E))"
  let ?R = "io_then (prepare_root E)
                (io_try (main_try E body (stack_root_of E))
                  (\<lambda>e. io_then (log_error E (''Unhandled exception during stack generation:\<newline>''
                                           @ format_exc E e)) (io_raise e)))"
  from assms have "returns (main E body) w" and "w' = snd (main E body w)"
    by (simp_all add: returnsI)
  then have r: "returns (io_then ?L ?R) w" and w': "w' = snd (io_then ?L ?R w)"
    by (simp_all only: main_split)
  from r have l: "returns ?L w"
    by simp
  with w' have s: "w' = snd (?R (snd (?L w)))"
    by simp
  from l have "can_log E (ACTIONS_LOG E) w"
    by (simp add: log_info_returns)
  then have "text_of (snd (?L w)) (ACTIONS_LOG E) = ?t"
    by (simp add: log_info_text)
  then have "node_inv (ACTIONS_LOG E) (text_from ?t) (snd (?L w))"
    by (simp add: text_from_iff [symmetric])
  moreover have "preserves (node_inv (ACTIONS_LOG E) (text_from ?t)) ?R"
    using safe_spot_log_text(1) [of E ?t]
    by (intro preserves_then preserves_try spot_prepare_root preserves_main_try
        preserves_log_error preserves_raise)
      (auto simp: safe_spot_def logs_closed_def)
  ultimately have "node_inv (ACTIONS_LOG E) (text_from ?t) w'"
    unfolding s by (rule preserves_snd [rotated])
  then have "prefix ?t (text_of w' (ACTIONS_LOG E))"
    by (simp add: text_from_iff [symmetric])
  then show ?thesis
    by (auto simp: strict_prefix_def prefix_def info_line_def)
qed

lemma same_root:
  assumes "root_dir E' = root_dir E"
  shows "stack_root_of E' = stack_root_of E" "ACTIONS_LOG E' = ACTIONS_LOG E"
    "ERRORS_LOG E' = ERRORS_LOG E"
  using assms by (simp_all add: stack_root_of_def ACTIONS_LOG_def ERRORS_LOG_def)

lemma demo_faults: "fault_free demo_env"
  by (simp add: fault_free_def demo_env_def)

lemma demo_fresh: "fresh demo_env demo_world"
  by (auto simp: fresh_def node_at_def demo_world_def stack_root_of_def demo_env_def
      STACK_DIR_NAME_def)

lemma demo_settled: "settled demo_env demo_world"
  using demo_fresh demo_can_log_actions
  by (rule fresh_settled)
    (simp add: is_dir_def node_at_def demo_world_def zip_path_stack demo_env_def)

lemma demo_body_text: "lstrip_nl (dedent (demo_body [''README.md''])) = ''echo README.md\<newline>''"
  by code_simp

section \<open>The claims\<close>

text \<open>
  C1, as stated: for every content string \<open>safe_write\<close> stores the text obtained by
  removing the longest whitespace prefix common to all non-blank lines from every line and
  then stripping the leading blank lines, all other text preserved exactly. This fails where
  a line of spaces and tabs is longer than the common prefix: \<^verbatim>\<open>dedent\<close> empties such a line,
  while removing the prefix would leave its remaining spaces. For the content
  \<^verbatim>\<open>"  a\n   \n  b"\<close> the file holds \<^verbatim>\<open>"a\n\nb"\<close>, the text of the statement is \<^verbatim>\<open>"a\n \nb"\<close>.
\<close>

theorem safe_write_spec_counterexample:
  "fst (safe_write demo_env [''srv'', ''gen'', ''t.txt''] ''  a\<newline>   \<newline>  b'' demo_world) = Inr ()
   \<and> content_at (snd (safe_write demo_env [''srv'', ''gen'', ''t.txt'']
                        ''  a\<newline>   \<newline>  b'' demo_world)) [''srv'', ''gen'', ''t.txt'']
       = Some ''a\<newline>\<newline>b''
   \<and> spec_write_text ''  a\<newline>   \<newline>  b'' = ''a\<newline> \<newline>b''"
  by code_simp

text \<open>
  C1, amended: when \<open>safe_write\<close> returns, the file at the target path (any path but the
  actions log, to which the success message is appended afterwards) holds exactly this text:
  every line of the content that consists of spaces and tabs only is emptied first; then the
  longest whitespace prefix common to all non-blank lines is removed from every line and the
  leading blank lines are stripped; everything else, a trailing newline included, is kept.
\<close>

theorem safe_write_stores_dedent_of_blanked_text:
  assumes "safe_write E p content w = (Inr (), w')" and "p \<noteq> ACTIONS_LOG E"
  shows "content_at w' p = Some (spec_write_text (whitespace_only_sub content))"
  using safe_write_content [OF assms] by (simp add: dedent_lstrip_spec)

theorem safe_write_stores_dedent_of_blanked_text_witness:
  "safe_write demo_env [''srv'', ''gen'', ''t.txt''] ''  a\<newline>   \<newline>  b'' demo_world
     = (Inr (), snd (safe_write demo_env [''srv'', ''gen'', ''t.txt'']
                       ''  a\<newline>   \<newline>  b'' demo_world))
   \<and> [''srv'', ''gen'', ''t.txt''] \<noteq> ACTIONS_LOG demo_env
   \<and> content_at (snd (safe_write demo_env [''srv'', ''gen'', ''t.txt'']
                        ''  a\<newline>   \<newline>  b'' demo_world)) [''srv'', ''gen'', ''t.txt'']
       = Some ''a\<newline>\<newline>b''"
proof -
  have "fst (safe_write demo_env [''srv'', ''gen'', ''t.txt''] ''  a\<newline>   \<newline>  b'' demo_world)
          = Inr ()"
    by code_simp
  then have r: "safe_write demo_env [''srv'', ''gen'', ''t.txt''] ''  a\<newline>   \<newline>  b'' demo_world
     = (Inr (), snd (safe_write demo_env [''srv'', ''gen'', ''t.txt'']
                       ''  a\<newline>   \<newline>  b'' demo_world))"
    by (simp add: prod_eq_iff)
  have n: "[''srv'', ''gen'', ''t.txt''] \<noteq> ACTIONS_LOG demo_env"
    by (simp add: ACTIONS_LOG_def demo_env_def)
  have v: "spec_write_text (whitespace_only_sub ''  a\<newline>   \<newline>  b'') = ''a\<newline>\<newline>b''"
    by code_simp
  from safe_write_stores_dedent_of_blanked_text [OF r n] r n show ?thesis
    by (simp only: v simp_thms)
qed

text \<open>
  C9. The text transformation of \<open>safe_write\<close>, \<open>dedent\<close> followed by stripping the
  leading newline characters, is idempotent: applied to its own output it returns that
  output unchanged, so writing a file again from its transformed content stores the same
  bytes.
\<close>

theorem safe_write_text_idempotent:
  "lstrip_nl (dedent (lstrip_nl (dedent content))) = lstrip_nl (dedent content)"
proof -
  obtain ls where d: "dedent content = join_nl ls" and t: "tidy ls"
    and m: "margin_of (indents ls) = []"
    by (rule dedent_normal)
  let ?ks = "dropWhile (\<lambda>l. l = []) ls"
  have s: "lstrip_nl (dedent content) = join_nl ?ks"
    using t by (simp add: d lstrip_join tidy_def)
  have fixed: "dedent (join_nl ?ks) = join_nl ?ks"
  proof (cases "?ks = []")
    case True
    have "dedent [] = []"
      by (simp add: dedent_lines blank_out_def indents_def)
    then show ?thesis by (simp only: True join_nl.simps)
  next
    case False
    with t have "tidy ?ks"
      by (auto simp: tidy_def dest: set_dropWhileD)
    moreover have "margin_of (indents ?ks) = []"
      by (simp add: indents_dropWhile_Nil m)
    ultimately show ?thesis by (rule dedent_tidy)
  qed
  have "lstrip_nl (join_nl ?ks) = join_nl ?ks"
    by (metis s lstrip_nl_def dropWhile_idem)
  with fixed have "lstrip_nl (dedent (join_nl ?ks)) = join_nl ?ks"
    by simp
  then show ?thesis
    by (simp only: s)
qed






text \<open>
  C7, as stated: every record appended to either log, the one of the top-level failure
  handler included, occupies exactly one line of the format
  \<^verbatim>\<open><timestamp> [<INFO|ERROR>] [<source>]: <message>\<close>. The handler of \<open>main\<close> logs the message
  \<^verbatim>\<open>Unhandled exception during stack generation:\<close>, a newline and the traceback, so its record
  spans several lines. In the example where the scripts directory cannot be created, no path
  and no exception text contains a newline; the run ends with status 1 and the errors log has
  these lines: the record of \<open>safe_write\<close>, then the handler's record on four lines, of which
  the last three do not start with a timestamp and the pointer to the errors log stands alone
  on the last. So this run of \<open>main\<close> has added more than one-line records.
\<close>

theorem handler_record_counterexample:
  "plain_env denied_env \<and> plain_scripts denied_env demo_world \<and>
   exit_status (main denied_env demo_body demo_world) = 1 \<and>
   split_nl (text_of (snd (main denied_env demo_body demo_world)) (ERRORS_LOG denied_env))
     = [''2024-05-17T09:03:02Z [ERROR] [setup_stack.py]: Failed to write /srv/gen/modular_cpu_ai_stack_v0_1_6/scripts/common.sh: [Errno 13] Permission denied: '/srv/gen/modular_cpu_ai_stack_v0_1_6/scripts' (see /srv/gen/create_stack_errors.log for details)'',
        ''2024-05-17T09:03:03Z [ERROR] [setup_stack.py]: Unhandled exception during stack generation:'',
        ''Traceback (most recent call last):'',
        ''OSError: [Errno 13] Permission denied: '/srv/gen/modular_cpu_ai_stack_v0_1_6/scripts'' @ [CHR 0x27],
        '' (see /srv/gen/create_stack_errors.log for details)'',
        []] \<and>
   \<not> one_line_logging denied_env demo_world (snd (main denied_env demo_body demo_world))"
proof -
  have "plain_env denied_env"
    by (simp add: plain_env_def denied_env_def demo_env_def os_error_def stack_root_of_def
        STACK_DIR_NAME_def str_path_def plain_path_def plain_def)
  moreover have "plain_scripts denied_env demo_world"
    by (simp add: plain_scripts_def demo_env_def denied_env_def demo_world_def paths_def
        parent_def stack_root_of_def)
  moreover have "exit_status (main denied_env demo_body demo_world) = 1 \<and>
   split_nl (text_of (snd (main denied_env demo_body demo_world)) (ERRORS_LOG denied_env))
     = [''2024-05-17T09:03:02Z [ERROR] [setup_stack.py]: Failed to write /srv/gen/modular_cpu_ai_stack_v0_1_6/scripts/common.sh: [Errno 13] Permission denied: '/srv/gen/modular_cpu_ai_stack_v0_1_6/scripts' (see /srv/gen/create_stack_errors.log for details)'',
        ''2024-05-17T09:03:03Z [ERROR] [setup_stack.py]: Unhandled exception during stack generation:'',
        ''Traceback (most recent call last):'',
        ''OSError: [Errno 13] Permission denied: '/srv/gen/modular_cpu_ai_stack_v0_1_6/scripts'' @ [CHR 0x27],
        '' (see /srv/gen/create_stack_errors.log for details)'',
        []] \<and>
   \<not> one_line_logging denied_env demo_world (snd (main denied_env demo_body demo_world))"
    unfolding denied_run snd_conv by code_simp
  ultimately show ?thesis
    by (intro conjI) simp_all
qed

text \<open>
  C7, amended: where neither the path of the script's directory nor the text of an exception
  of the operating system contains a newline, every record that an operation of the
  generator appends to either log occupies exactly one line of the format
  \<^verbatim>\<open><timestamp> [INFO] [setup_stack.py]: <message>\<close>, respectively
  \<^verbatim>\<open><timestamp> [ERROR] [setup_stack.py]: <message> (see <errors log> for details)\<close>, with a
  timestamp of the shape \<^verbatim>\<open>YYYY-MM-DDTHH:MM:SSZ\<close>; the one exception is the record of the
  top-level failure handler. This holds for \<open>log_info\<close> and \<open>log_error\<close> with a message
  without a newline, for \<open>safe_write\<close> and \<open>make_executable\<close> with a path without a newline
  (and, for \<open>safe_write\<close>, other than the logs), for \<open>create_zip\<close>, and, if no entry of the
  scripts directory has a newline in its name, for the \<^verbatim>\<open>try\<close> block of \<open>main\<close>, for all
  statements of \<open>main\<close> outside its \<^verbatim>\<open>except\<close> clause, and for the actions log of a whole run of
  \<open>main\<close>. The errors log of a run of \<open>main\<close> holds what these statements have written and
  after it, if the handler has run, the handler's record: the line \<^verbatim>\<open><timestamp> [ERROR]
  [setup_stack.py]: Unhandled exception during stack generation:\<close>, then the lines of the
  traceback, then the pointer to the errors log.
\<close>

theorem log_record_is_one_line:
  assumes "plain_env E"
  shows "(plain msg \<longrightarrow>
        one_line_logging E w (snd (log_info E msg w))
      \<and> one_line_logging E w (snd (log_error E msg w))
      \<and> (can_log E (ACTIONS_LOG E) w \<longrightarrow>
           plain (strftime (clock E (ticks w)) @ '' [INFO] [setup_stack.py]: '' @ msg) \<and>
           text_of (snd (log_info E msg w)) (ACTIONS_LOG E)
             = text_of w (ACTIONS_LOG E)
               @ (strftime (clock E (ticks w)) @ '' [INFO] [setup_stack.py]: '' @ msg) @ ''\<newline>'')
      \<and> (can_log E (ERRORS_LOG E) w \<longrightarrow>
           plain (strftime (clock E (ticks w)) @ '' [ERROR] [setup_stack.py]: '' @ msg
                  @ '' (see '' @ str_path (ERRORS_LOG E) @ '' for details)'') \<and>
           text_of (snd (log_error E msg w)) (ERRORS_LOG E)
             = text_of w (ERRORS_LOG E)
               @ (strftime (clock E (ticks w)) @ '' [ERROR] [setup_stack.py]: '' @ msg
                  @ '' (see '' @ str_path (ERRORS_LOG E) @ '' for details)'') @ ''\<newline>''))
   \<and> (plain_path p \<and> p \<noteq> ACTIONS_LOG E \<and> p \<noteq> ERRORS_LOG E \<longrightarrow>
        one_line_logging E w (snd (safe_write E p c w)))
   \<and> (plain_path p \<longrightarrow> one_line_logging E w (snd (make_executable E p w)))
   \<and> one_line_logging E w (snd (create_zip E (stack_root_of E) w))
   \<and> (plain_scripts E w \<longrightarrow>
        one_line_logging E w (snd (main_try E body (stack_root_of E) w))
      \<and> one_line_logging E w (snd (main_steps E body w))
      \<and> appends (records info_tag []) (ACTIONS_LOG E) w (snd (main E body w)))
   \<and> (text_of (snd (main E body w)) (ERRORS_LOG E)
          = text_of (snd (main_steps E body w)) (ERRORS_LOG E)
       \<or> (\<exists>e. fst (main E body w) = Inl e \<and>
            text_of (snd (main E body w)) (ERRORS_LOG E)
              = text_of (snd (main_steps E body w)) (ERRORS_LOG E)
                @ strftime (clock E (ticks (snd (main_steps E body w))))
                @ '' [ERROR] [setup_stack.py]: Unhandled exception during stack generation:\<newline>''
                @ format_exc E e @ '' (see '' @ str_path (ERRORS_LOG E) @ '' for details)\<newline>''))"
proof (intro conjI impI)
  assume m: "plain msg"
  from assms m show "one_line_logging E w (snd (log_info E msg w))"
    by (intro tameD(1) [OF tame_log_info [where I = "\<lambda>_. True"]]) simp_all
  from assms m show "one_line_logging E w (snd (log_error E msg w))"
    by (intro tameD(1) [OF tame_log_error [where I = "\<lambda>_. True"]]) simp_all
  from m show "plain (strftime (clock E (ticks w)) @ '' [INFO] [setup_stack.py]: '' @ msg)"
    by simp
  from assms m
  show "plain (strftime (clock E (ticks w)) @ '' [ERROR] [setup_stack.py]: '' @ msg
                  @ '' (see '' @ str_path (ERRORS_LOG E) @ '' for details)'')"
    by (simp add: plain_log_paths)
next
  assume "can_log E (ACTIONS_LOG E) w"
  then show "text_of (snd (log_info E msg w)) (ACTIONS_LOG E)
             = text_of w (ACTIONS_LOG E)
               @ (strftime (clock E (ticks w)) @ '' [INFO] [setup_stack.py]: '' @ msg) @ ''\<newline>''"
    by (simp add: log_info_text info_line_def)
next
  assume "can_log E (ERRORS_LOG E) w"
  then show "text_of (snd (log_error E msg w)) (ERRORS_LOG E)
             = text_of w (ERRORS_LOG E)
               @ (strftime (clock E (ticks w)) @ '' [ERROR] [setup_stack.py]: '' @ msg
                  @ '' (see '' @ str_path (ERRORS_LOG E) @ '' for details)'') @ ''\<newline>''"
    by (simp add: log_error_text error_line_def)
next
  assume "plain_path p \<and> p \<noteq> ACTIONS_LOG E \<and> p \<noteq> ERRORS_LOG E"
  with assms show "one_line_logging E w (snd (safe_write E p c w))"
    by (intro tameD(1) [OF tame_safe_write [where I = "\<lambda>_. True"]]) simp_all
next
  assume "plain_path p"
  with assms show "one_line_logging E w (snd (make_executable E p w))"
    by (intro tameD(1) [OF tame_make_executable [where I = "\<lambda>_. True"]]) simp_all
next
  from assms show "one_line_logging E w (snd (create_zip E (stack_root_of E) w))"
    by (intro tameD(1) [OF tame_create_zip [where I = "\<lambda>_. True"]]) simp_all
next
  assume s: "plain_scripts E w"
  from tame_main_try [OF assms] s
  show "one_line_logging E w (snd (main_try E body (stack_root_of E) w))"
    by (rule tameD(1))
  from tame_main_steps [OF assms] s
  show "one_line_logging E w (snd (main_steps E body w))"
    by (rule tameD(1))
  from assms s show "appends (records info_tag []) (ACTIONS_LOG E) w (snd (main E body w))"
    by (rule main_actions)
next
  from main_errors_text [of E body w]
  show "text_of (snd (main E body w)) (ERRORS_LOG E)
          = text_of (snd (main_steps E body w)) (ERRORS_LOG E)
       \<or> (\<exists>e. fst (main E body w) = Inl e \<and>
            text_of (snd (main E body w)) (ERRORS_LOG E)
              = text_of (snd (main_steps E body w)) (ERRORS_LOG E)
                @ strftime (clock E (ticks (snd (main_steps E body w))))
                @ '' [ERROR] [setup_stack.py]: Unhandled exception during stack generation:\<newline>''
                @ format_exc E e @ '' (see '' @ str_path (ERRORS_LOG E) @ '' for details)\<newline>'')"
    by (simp add: error_line_def)
qed


text \<open>
  In the example, the first lines of the two logs, and what the generator's operations add
  to them.
\<close>

theorem log_record_is_one_line_witness:
  "plain_env demo_env \<and> plain ''start''
   \<and> can_log demo_env (ACTIONS_LOG demo_env) demo_world
   \<and> can_log demo_env (ERRORS_LOG demo_env) demo_world
   \<and> plain_path [''srv'', ''gen'', ''t.txt'']
   \<and> [''srv'', ''gen'', ''t.txt''] \<noteq> ACTIONS_LOG demo_env
   \<and> [''srv'', ''gen'', ''t.txt''] \<noteq> ERRORS_LOG demo_env
   \<and> plain_scripts demo_env demo_world
   \<and> text_of (snd (log_info demo_env ''start'' demo_world)) (ACTIONS_LOG demo_env)
        = ''2024-05-17T09:03:00Z [INFO] [setup_stack.py]: start\<newline>''
   \<and> text_of (snd (log_error demo_env ''start'' demo_world)) (ERRORS_LOG demo_env)
        = ''2024-05-17T09:03:00Z [ERROR] [setup_stack.py]: start (see /srv/gen/create_stack_errors.log for details)\<newline>''
   \<and> one_line_logging demo_env demo_world
        (snd (safe_write demo_env [''srv'', ''gen'', ''t.txt''] ''x'' demo_world))
   \<and> one_line_logging demo_env demo_world
        (snd (make_executable demo_env [''srv'', ''gen'', ''t.txt''] demo_world))
   \<and> one_line_logging demo_env demo_world
        (snd (main_try demo_env demo_body (stack_root_of demo_env) demo_world))
   \<and> appends (records info_tag []) (ACTIONS_LOG demo_env) demo_world
        (snd (main demo_env demo_body demo_world))"
proof -
  let ?p = "[''srv'', ''gen'', ''t.txt'']"
  have m: "plain ''start''"
    by simp
  have q: "plain_path ?p" "?p \<noteq> ACTIONS_LOG demo_env" "?p \<noteq> ERRORS_LOG demo_env"
    by (simp_all add: ACTIONS_LOG_def ERRORS_LOG_def demo_env_def)
  have p: "str_path (ERRORS_LOG demo_env) = ''/srv/gen/create_stack_errors.log''"
    by (simp add: str_path_def ERRORS_LOG_def demo_env_def)
  note t = log_record_is_one_line [OF demo_plain(1), of "''start''" demo_world ?p "''x''" demo_body]
  have ti: "text_of (snd (log_info demo_env ''start'' demo_world)) (ACTIONS_LOG demo_env)
        = text_of demo_world (ACTIONS_LOG demo_env)
          @ (strftime (clock demo_env (ticks demo_world)) @ '' [INFO] [setup_stack.py]: '' @ ''start'')
          @ ''\<newline>''"
    using t m demo_can_log_actions by blast
  have te: "text_of (snd (log_error demo_env ''start'' demo_world)) (ERRORS_LOG demo_env)
        = text_of demo_world (ERRORS_LOG demo_env)
          @ (strftime (clock demo_env (ticks demo_world)) @ '' [ERROR] [setup_stack.py]: '' @ ''start''
             @ '' (see '' @ str_path (ERRORS_LOG demo_env) @ '' for details)'') @ ''\<newline>''"
    using t m demo_can_log_errors by blast
  have s: "one_line_logging demo_env demo_world (snd (safe_write demo_env ?p ''x'' demo_world))"
    using t q by blast
  have x: "one_line_logging demo_env demo_world (snd (make_executable demo_env ?p demo_world))"
    using t q by blast
  have r: "one_line_logging demo_env demo_world
        (snd (main_try demo_env demo_body (stack_root_of demo_env) demo_world))"
    and a: "appends (records info_tag []) (ACTIONS_LOG demo_env) demo_world
        (snd (main demo_env demo_body demo_world))"
    using t demo_plain(2) by blast+
  show ?thesis
  proof (intro conjI)
    show "text_of (snd (log_info demo_env ''start'' demo_world)) (ACTIONS_LOG demo_env)
        = ''2024-05-17T09:03:00Z [INFO] [setup_stack.py]: start\<newline>''"
      by (simp add: ti demo_texts demo_clock)
    show "text_of (snd (log_error demo_env ''start'' demo_world)) (ERRORS_LOG demo_env)
        = ''2024-05-17T09:03:00Z [ERROR] [setup_stack.py]: start (see /srv/gen/create_stack_errors.log for details)\<newline>''"
      by (simp add: te demo_texts demo_clock p)
  qed (rule demo_plain m demo_can_log_actions demo_can_log_errors q s x r a)+
qed

text \<open>
  C8. When \<open>make_executable\<close> returns for an existing node, the node's new mode is its old
  mode with the execute bits of owner, group and other (bits 6, 3 and 0) added. Every other
  permission bit, and every other bit of the mode but one, is as it was. The one is the
  set-group-ID bit (bit 10), which is no permission bit and which \<^verbatim>\<open>chmod(2)\<close> clears for a
  caller who is neither privileged nor a member of the file's group: it is as it was where
  the system keeps it, and then, or if it was not set, the new mode is exactly
  \<^verbatim>\<open>mode | S_IXUSR | S_IXGRP | S_IXOTH\<close>.
\<close>

theorem make_executable_adds_execute_bits:
  assumes "make_executable E p w = (Inr (), w')" and "node_at w p = Some n"
  shows "\<exists>n'. node_at w' p = Some n'
    \<and> (\<forall>i. i \<noteq> 10 \<longrightarrow> (bit (st_mode n') i \<longleftrightarrow> bit (st_mode n) i \<or> i = 6 \<or> i = 3 \<or> i = 0))
    \<and> (bit (st_mode n') 10 \<longleftrightarrow> bit (st_mode n) 10 \<and> sgid_kept E p)
    \<and> (sgid_kept E p \<or> \<not> bit (st_mode n) 10 \<longrightarrow>
          st_mode n' = st_mode n OR S_IXUSR OR S_IXGRP OR S_IXOTH)"
proof -
  from make_executable_mode [OF assms]
  obtain n' where n': "node_at w' p = Some n'"
    and m: "st_mode n' = granted E p (st_mode n OR S_IXUSR OR S_IXGRP OR S_IXOTH)"
    by (cases "node_at w' p") simp_all
  have "bit (st_mode n') i \<longleftrightarrow> bit (st_mode n) i \<or> i = 6 \<or> i = 3 \<or> i = 0" if "i \<noteq> 10" for i
    using that by (simp add: m bit_granted_x)
  moreover have "bit (st_mode n') 10 \<longleftrightarrow> bit (st_mode n) 10 \<and> sgid_kept E p"
    by (simp add: m bit_granted_x)
  moreover have "st_mode n' = st_mode n OR S_IXUSR OR S_IXGRP OR S_IXOTH"
    if "sgid_kept E p \<or> \<not> bit (st_mode n) 10"
    using that by (simp only: m granted_same)
  ultimately show ?thesis
    using n' by blast
qed

text \<open>
  The generator script of the example has mode \<^verbatim>\<open>0100644\<close>, and \<^verbatim>\<open>0100755\<close> afterwards.
\<close>

theorem make_executable_adds_execute_bits_witness:
  "make_executable demo_env [''srv'', ''gen'', ''setup_stack.py''] demo_world
     = (Inr (), snd (make_executable demo_env [''srv'', ''gen'', ''setup_stack.py''] demo_world))
   \<and> node_at demo_world [''srv'', ''gen'', ''setup_stack.py'']
       = Some (File 0x81A4 ''#!/usr/bin/env python3'')
   \<and> sgid_kept demo_env [''srv'', ''gen'', ''setup_stack.py'']
   \<and> map_option st_mode
        (node_at (snd (make_executable demo_env [''srv'', ''gen'', ''setup_stack.py''] demo_world))
           [''srv'', ''gen'', ''setup_stack.py'']) = Some 0x81ED"
proof -
  let ?p = "[''srv'', ''gen'', ''setup_stack.py'']"
  have "fst (make_executable demo_env ?p demo_world) = Inr ()"
    by code_simp
  then have r: "make_executable demo_env ?p demo_world
     = (Inr (), snd (make_executable demo_env ?p demo_world))"
    by (simp add: prod_eq_iff)
  have n: "node_at demo_world ?p = Some (File 0x81A4 ''#!/usr/bin/env python3'')"
    by (simp add: node_at_def demo_world_def)
  have k: "sgid_kept demo_env ?p"
    by (simp add: demo_env_def)
  have m: "(0x81A4 :: 32 word) OR S_IXUSR OR S_IXGRP OR S_IXOTH = 0x81ED"
    by (simp add: S_IXUSR_def S_IXGRP_def S_IXOTH_def)
  from make_executable_adds_execute_bits [OF r n] k
  obtain n' where "node_at (snd (make_executable demo_env ?p demo_world)) ?p = Some n'"
    and "st_mode n' = 0x81A4 OR S_IXUSR OR S_IXGRP OR S_IXOTH"
    by auto
  with r n k show ?thesis
    by (simp only: m option.map node.sel simp_thms)
qed

text \<open>
  C10. The entry names are relative to the script's directory, but \<open>create_zip\<close> walks the
  stack root only: neither of the two log files, nor the archive itself, nor any other file
  that lies directly in the script's directory (the generator script is one) is read or
  becomes an entry of the archive.
\<close>

theorem archive_excludes_generator_files:
  assumes "create_zip E (stack_root_of E) w = (Inr zp, w')"
  shows "content_at w' zp = Some (zip_bytes E (ticks w) (archive_entries E w (stack_root_of E)))
    \<and> ACTIONS_LOG E \<notin> set (walk_files E w (stack_root_of E))
    \<and> ERRORS_LOG E \<notin> set (walk_files E w (stack_root_of E))
    \<and> zp \<notin> set (walk_files E w (stack_root_of E))
    \<and> (\<forall>s. root_dir E @ [s] \<notin> set (walk_files E w (stack_root_of E))
            \<and> [s] \<notin> fst ` set (archive_entries E w (stack_root_of E)))"
proof -
  have sr: "stack_root_of E = root_dir E @ [STACK_DIR_NAME]"
    by (simp add: stack_root_of_def)
  have top: "root_dir E @ [s] \<notin> set (walk_files E w (stack_root_of E))" for s
    by (simp add: sr set_walk_files strict_prefix_child)
  have names: "[s] \<notin> fst ` set (archive_entries E w (stack_root_of E))" for s
    by (auto simp: sr set_archive_entries)
  from create_zip_content [OF assms [unfolded sr]]
  have zp: "zp = root_dir E @ [STACK_DIR_NAME @ ''.zip'']"
    and c: "content_at w' zp = Some (zip_bytes E (ticks w) (archive_entries E w (stack_root_of E)))"
    by (simp_all add: sr)
  from top [of "''create_stack_actions.log''"] top [of "''create_stack_errors.log''"]
    top [of "STACK_DIR_NAME @ ''.zip''"] top names c
  show ?thesis
    by (simp add: ACTIONS_LOG_def ERRORS_LOG_def zp)
qed

theorem archive_excludes_generator_files_witness:
  "create_zip demo_env (stack_root_of demo_env) packed_world
     = (Inr [''srv'', ''gen'', ''modular_cpu_ai_stack_v0_1_6.zip''],
        snd (create_zip demo_env (stack_root_of demo_env) packed_world))
   \<and> is_file packed_world (ACTIONS_LOG demo_env)
   \<and> ACTIONS_LOG demo_env \<notin> set (walk_files demo_env packed_world (stack_root_of demo_env))
   \<and> walk_files demo_env packed_world (stack_root_of demo_env)
       = [[''srv'', ''gen'', ''modular_cpu_ai_stack_v0_1_6'', ''README.md'']]"
proof -
  have r: "create_zip demo_env (stack_root_of demo_env) packed_world
     = (Inr [''srv'', ''gen'', ''modular_cpu_ai_stack_v0_1_6.zip''],
        snd (create_zip demo_env (stack_root_of demo_env) packed_world))"
    using packed_main_zip_run by (simp add: prod_eq_iff)
  have f: "is_file packed_world (ACTIONS_LOG demo_env)"
    by (simp add: is_file_def node_at_def packed_world_def ACTIONS_LOG_def demo_env_def)
  from archive_excludes_generator_files [OF r]
  have "ACTIONS_LOG demo_env \<notin> set (walk_files demo_env packed_world (stack_root_of demo_env))"
    by (elim conjE)
  with r f packed_walk show ?thesis
    by (intro conjI)
qed

text \<open>
  C2. When the generator has run to its end and then runs to its end again, for the same
  directory (the clock, and all else of the environment, may differ), every file that it
  generates from a template holds after both runs the same bytes, which are a function of
  the template's content alone: \<open>dedent\<close> and \<open>lstrip\<close> of it. More than that, whatever is
  found below the stack root has the same content after the second run as after the first.
  Both logs keep what they held and grow only; the actions log does grow in every run. (The
  archive is no part of this: it lies beside the stack root, and records the modification
  times of its members.)
\<close>

theorem rerun_keeps_generated_files:
  assumes "main E body w0 = (Inr (), w1)" and "main E' body w1 = (Inr (), w2)"
    and "root_dir E' = root_dir E"
  shows "(\<forall>rel \<in> set template_paths.
            content_at w1 (stack_root_of E @ rel) = Some (lstrip_nl (dedent (body rel)))
          \<and> content_at w2 (stack_root_of E @ rel) = Some (lstrip_nl (dedent (body rel))))
     \<and> (\<forall>q. strict_prefix (stack_root_of E) q \<longrightarrow> content_at w2 q = content_at w1 q)
     \<and> strict_prefix (text_of w0 (ACTIONS_LOG E)) (text_of w1 (ACTIONS_LOG E))
     \<and> strict_prefix (text_of w1 (ACTIONS_LOG E)) (text_of w2 (ACTIONS_LOG E))
     \<and> prefix (text_of w0 (ERRORS_LOG E)) (text_of w1 (ERRORS_LOG E))
     \<and> prefix (text_of w1 (ERRORS_LOG E)) (text_of w2 (ERRORS_LOG E))"
proof (intro conjI ballI allI impI)
  note r = same_root [OF assms(3)]
  from assms(1) have w1: "w1 = snd (main E body w0)"
    by simp
  from assms(2) have w2: "w2 = snd (main E' body w1)"
    by simp
  fix rel
  assume rel: "rel \<in> set template_paths"
  from assms(1) rel
  show 1: "content_at w1 (stack_root_of E @ rel) = Some (lstrip_nl (dedent (body rel)))"
    by (rule main_writes_templates)
  from main_writes_templates [OF assms(2) rel]
  show 2: "content_at w2 (stack_root_of E @ rel) = Some (lstrip_nl (dedent (body rel)))"
    by (simp only: r)
next
  note r = same_root [OF assms(3)]
  from assms(2) have w2: "w2 = snd (main E' body w1)"
    by simp
  fix q
  assume q: "strict_prefix (stack_root_of E) q"
  show "content_at w2 q = content_at w1 q"
  proof (cases "q \<in> (\<lambda>rel. stack_root_of E @ rel) ` set template_paths")
    case True
    then obtain rel where rel: "rel \<in> set template_paths" and e: "q = stack_root_of E @ rel"
      by auto
    from main_writes_templates [OF assms(1) rel] main_writes_templates [OF assms(2) rel]
    show ?thesis
      by (simp add: e r)
  next
    case False
    with q have "strict_prefix (stack_root_of E') q"
      and "q \<notin> (\<lambda>rel. stack_root_of E' @ rel) ` set template_paths"
      by (simp_all add: r)
    then show ?thesis
      unfolding w2 by (rule main_keeps_content)
  qed
next
  from assms(1) show "strict_prefix (text_of w0 (ACTIONS_LOG E)) (text_of w1 (ACTIONS_LOG E))"
    by (rule main_actions_grow)
  from main_actions_grow [OF assms(2)]
  show "strict_prefix (text_of w1 (ACTIONS_LOG E)) (text_of w2 (ACTIONS_LOG E))"
    by (simp only: same_root [OF assms(3)])
  from assms(1) have w1: "w1 = snd (main E body w0)"
    by simp
  show "prefix (text_of w0 (ERRORS_LOG E)) (text_of w1 (ERRORS_LOG E))"
    unfolding w1 by (intro main_keeps_log_text) simp
  from assms(2) have w2: "w2 = snd (main E' body w1)"
    by simp
  have "prefix (text_of w1 (ERRORS_LOG E')) (text_of w2 (ERRORS_LOG E'))"
    unfolding w2 by (intro main_keeps_log_text) simp
  then show "prefix (text_of w1 (ERRORS_LOG E)) (text_of w2 (ERRORS_LOG E))"
    by (simp only: same_root [OF assms(3)])
qed

text \<open>Two runs in the example: the file \<^verbatim>\<open>README.md\<close> after each of them.\<close>

theorem rerun_keeps_generated_files_witness:
  "main demo_env demo_body demo_world = (Inr (), snd (main demo_env demo_body demo_world))
   \<and> main demo_env demo_body (snd (main demo_env demo_body demo_world))
       = (Inr (), snd (main demo_env demo_body (snd (main demo_env demo_body demo_world))))
   \<and> [''README.md''] \<in> set template_paths
   \<and> strict_prefix (stack_root_of demo_env) (stack_root_of demo_env @ [''README.md''])
   \<and> content_at (snd (main demo_env demo_body demo_world))
        (stack_root_of demo_env @ [''README.md'']) = Some ''echo README.md\<newline>''
   \<and> content_at (snd (main demo_env demo_body (snd (main demo_env demo_body demo_world))))
        (stack_root_of demo_env @ [''README.md'']) = Some ''echo README.md\<newline>''
   \<and> strict_prefix (text_of demo_world (ACTIONS_LOG demo_env))
        (text_of (snd (main demo_env demo_body demo_world)) (ACTIONS_LOG demo_env))"
proof -
  let ?w1 = "snd (main demo_env demo_body demo_world)"
  let ?w2 = "snd (main demo_env demo_body ?w1)"
  have 1: "main demo_env demo_body demo_world = (Inr (), ?w1)"
    by (intro returns_result returns_main demo_faults demo_settled)
  have "settled demo_env ?w1"
    using demo_settled by (rule settled_main)
  then have 2: "main demo_env demo_body ?w1 = (Inr (), ?w2)"
    by (intro returns_result returns_main demo_faults)
  have t: "[''README.md''] \<in> set template_paths"
    by (simp add: template_paths_def)
  have s: "strict_prefix (stack_root_of demo_env) (stack_root_of demo_env @ [''README.md''])"
    by (simp add: strict_prefix_def)
  note c = rerun_keeps_generated_files [OF 1 2 refl]
  from c t have "content_at ?w1 (stack_root_of demo_env @ [''README.md''])
      = Some (lstrip_nl (dedent (demo_body [''README.md'']))) \<and>
    content_at ?w2 (stack_root_of demo_env @ [''README.md''])
      = Some (lstrip_nl (dedent (demo_body [''README.md''])))"
    by blast
  then have a: "content_at ?w1 (stack_root_of demo_env @ [''README.md''])
      = Some ''echo README.md\<newline>''"
    and b: "content_at ?w2 (stack_root_of demo_env @ [''README.md''])
      = Some ''echo README.md\<newline>''"
    by (simp_all only: demo_body_text)
  from c have g: "strict_prefix (text_of demo_world (ACTIONS_LOG demo_env))
        (text_of ?w1 (ACTIONS_LOG demo_env))"
    by blast
  from 1 2 t s a b g show ?thesis
    by (intro conjI)
qed

end
